theory Spec2Isabelle
  imports Main "HOL-Library.AList" "HOL-Library.Multiset"
begin

section \<open>The translation proxy of cmd/translate/main.go\<close>

text \<open>
  A shallow embedding of \<^verbatim>\<open>src/cmd/translate/main.go\<close>. Go strings are byte
  sequences, modelled as \<^typ>\<open>string\<close>. What lies outside the process is explicit.
  An external command is an oracle that maps its argument vector to an exit status and
  its output. The request handler sees Redis through the reply to its \<^verbatim>\<open>HGet\<close>, and
  the processes it starts, the commands it sends to Redis and its sends on the
  notification channel are recorded, in program order, in a list of effects. The
  janitor works on the content of the database, whose commands are taken to succeed.
  Calls of \<^verbatim>\<open>fmt.Println\<close> only write to the standard output of the process and are
  left out.
\<close>

subsection \<open>Library functions of Go used by the program\<close>

text \<open>\<^verbatim>\<open>strings.Join(elems, sep)\<close>.\<close>

fun Join :: "string list \<Rightarrow> string \<Rightarrow> string" where
  "Join [] sep = []"
| "Join [x] sep = x"
| "Join (x # y # ys) sep = x @ sep @ Join (y # ys) sep"

text \<open>
  \<^verbatim>\<open>strings.Split(s, "\n")\<close>: the pieces of \<open>s\<close> between line feeds; the empty
  string gives one empty piece.
\<close>

fun SplitLines :: "string \<Rightarrow> string list" where
  "SplitLines [] = [[]]"
| "SplitLines (c # cs) =
     (if c = CHR 0x0A then [] # SplitLines cs
      else (case SplitLines cs of
              [] \<Rightarrow> [[c]]
            | l # ls \<Rightarrow> (c # l) # ls))"

text \<open>
  The class \<^verbatim>\<open>\w\<close> of Go's \<^verbatim>\<open>regexp\<close> package: ASCII letters, digits and
  the underscore. A byte of a multi-byte UTF-8 sequence is never in it.
\<close>

definition isWordChar :: "char \<Rightarrow> bool" where
  "isWordChar c =
     (let n = (of_char c :: nat)
      in (48 \<le> n \<and> n \<le> 57) \<or> (65 \<le> n \<and> n \<le> 90) \<or> n = 95 \<or> (97 \<le> n \<and> n \<le> 122))"

text \<open>
  \<^verbatim>\<open>textOnly.FindString(line)\<close> for \<^verbatim>\<open>textOnly = regexp.MustCompile("\\w+")\<close>:
  the leftmost, longest run of word characters, or the empty string when the line
  has none.
\<close>

definition FindString :: "string \<Rightarrow> string" where
  "FindString line = takeWhile isWordChar (dropWhile (\<lambda>c. \<not> isWordChar c) line)"

subsection \<open>Configuration and external processes\<close>

record config =
  Command :: string

text \<open>
  What a finished external process leaves behind: the error of \<^verbatim>\<open>cmd.Run\<close> or
  \<^verbatim>\<open>cmd.CombinedOutput\<close> (\<open>None\<close> for a clean exit), its standard output, and
  its standard output and standard error combined.
\<close>

record proc_result =
  exitErr :: "string option"
  stdout :: string
  combined :: string

text \<open>
  The operating system as seen by one call: \<open>run n argv\<close> is what the \<open>n\<close>-th process
  started by the call (counting from 0) leaves behind when started with the argument
  vector \<open>argv\<close>.
\<close>

type_synonym os = "nat \<Rightarrow> string list \<Rightarrow> proc_result"

datatype error =
    ExecError string
  | EmptyReply
  | AllEnginesFailed

text \<open>\<^verbatim>\<open>err.Error()\<close>.\<close>

fun Error :: "error \<Rightarrow> string" where
  "Error (ExecError m) = m"
| "Error EmptyReply = ''empty reply from API''"
| "Error AllEnginesFailed = ''failed to translate in all engines''"

subsection \<open>Effects\<close>

text \<open>
  \<open>ChanSend s\<close> is the statement \<^verbatim>\<open>notifyChannel <- s\<close> executed by the caller
  itself; \<open>GoChanSend s\<close> is the same statement handed to a new goroutine
  (\<^verbatim>\<open>go func() { notifyChannel <- s }()\<close>).
\<close>

datatype effect =
    Exec "string list"
  | RedisHGet string string
  | RedisHSet string string string
  | ChanSend string
  | GoChanSend string

subsection \<open>Engine discovery: getEngines\<close>

text \<open>
  The first loop of \<^verbatim>\<open>getEngines\<close>: one token for each line that has one.
\<close>

fun collectEngines :: "string list \<Rightarrow> string list" where
  "collectEngines [] = []"
| "collectEngines (line # rest) =
     (let l = FindString line
      in if l \<noteq> [] then l # collectEngines rest else collectEngines rest)"

text \<open>
  The second loop of \<^verbatim>\<open>getEngines\<close>. \<open>moveGoogle i rest engines\<close> is the loop about
  to look at index \<open>i\<close>, with \<open>rest\<close> the elements from index \<open>i\<close> on. The slice is
  written only immediately before the loop is left.
\<close>

fun moveGoogle :: "nat \<Rightarrow> string list \<Rightarrow> string list \<Rightarrow> string list" where
  "moveGoogle i [] engines = engines"
| "moveGoogle i (eng # rest) engines =
     (if eng \<noteq> ''google'' then moveGoogle (Suc i) rest engines
      else if i = 0 then engines
      else engines[0 := engines ! i, i := engines ! 0])"

definition getEngines :: "config \<Rightarrow> os \<Rightarrow> (error + string list) \<times> effect list" where
  "getEngines cfg run =
     (let argv = [Command cfg, ''-S''];
          r = run 0 argv
      in case exitErr r of
           Some m \<Rightarrow> (Inl (ExecError m), [Exec argv])
         | None \<Rightarrow>
             (let engines = collectEngines (SplitLines (combined r))
              in (Inr (moveGoogle 0 engines engines), [Exec argv])))"

text \<open>
  The goroutine that \<^verbatim>\<open>main\<close> starts for discovery: the value of the
  process-wide variable \<^verbatim>\<open>engines\<close> afterwards, and the effects.
\<close>

definition infoNotification :: "string \<Rightarrow> effect list" where
  "infoNotification message = [GoChanSend (''[info] '' @ message)]"

definition errorNotification :: "string \<Rightarrow> effect list" where
  "errorNotification message = [GoChanSend (''[error] '' @ message)]"

definition mainDiscovery :: "config \<Rightarrow> os \<Rightarrow> string list \<Rightarrow> string list \<times> effect list" where
  "mainDiscovery cfg run engines =
     (case getEngines cfg run of
        (Inl err, effs) \<Rightarrow>
          (engines, effs @ errorNotification (''failed get engines list: '' @ Error err))
      | (Inr list, effs) \<Rightarrow>
          (list, effs @ infoNotification (''supported engines: '' @ Join list '', '')))"

text \<open>The value of \<^verbatim>\<open>engines\<close> before discovery has assigned it.\<close>

definition defaultEngines :: "string list" where
  "defaultEngines = [''google'']"

subsection \<open>Translation: invokeTrans, fetch and the request handler\<close>

text \<open>
  \<^verbatim>\<open>strings.ToLower\<close> and \<^verbatim>\<open>strings.TrimSpace\<close> follow the case and white-space
  tables of Unicode, and \<^verbatim>\<open>unicode.IsGraphic\<close> its category tables. The tables are
  not part of the program; they are parameters of the model. \<open>GraphicRanges\<close> is
  the table \<^verbatim>\<open>unicode.GraphicRanges\<close> that \<^verbatim>\<open>IsGraphic\<close> consults for a code
  point above U+00FF.
\<close>

record golib =
  ToLower :: "string \<Rightarrow> string"
  TrimSpace :: "string \<Rightarrow> string"
  GraphicRanges :: "nat \<Rightarrow> bool"

definition transArgv :: "config \<Rightarrow> string \<Rightarrow> string \<Rightarrow> string \<Rightarrow> string list" where
  "transArgv cfg word lang engine = [Command cfg, ''-e'', engine, ''-b'', '':'' @ lang, word]"

definition invokeTrans ::
  "golib \<Rightarrow> config \<Rightarrow> os \<Rightarrow> nat \<Rightarrow> string \<Rightarrow> string \<Rightarrow> string \<Rightarrow> (error + string) \<times> effect list" where
  "invokeTrans L cfg run n word lang engine =
     (let argv = transArgv cfg word lang engine;
          r = run n argv
      in case exitErr r of
           Some m \<Rightarrow> (Inl (ExecError m), [Exec argv])
         | None \<Rightarrow>
             (let ans = ToLower L (TrimSpace L (stdout r))
              in if ans = [] then (Inl EmptyReply, [Exec argv])
                 else (Inr ans, [Exec argv])))"

text \<open>
  \<^verbatim>\<open>fmt.Sprint\<close> puts a space between two operands only when neither is a string,
  so the message is the plain concatenation.
\<close>

definition onTranslationError :: "string \<Rightarrow> string \<Rightarrow> error \<Rightarrow> effect list" where
  "onTranslationError originalWord targetLanguage err =
     [ChanSend (''[error] '' @ originalWord @ '' (to '' @ targetLanguage @ '') '' @ Error err)]"

text \<open>
  \<open>fetchFrom\<close> is \<^verbatim>\<open>fetch\<close> with its loop about to start the \<open>n\<close>-th process, the
  engines not yet tried being the last argument. The result is the returned string and
  the effects.
\<close>

fun fetchFrom ::
  "golib \<Rightarrow> config \<Rightarrow> os \<Rightarrow> string \<Rightarrow> string \<Rightarrow> nat \<Rightarrow> string list \<Rightarrow> string \<times> effect list" where
  "fetchFrom L cfg run word lang n [] =
     (word, onTranslationError word lang AllEnginesFailed)"
| "fetchFrom L cfg run word lang n (engine # rest) =
     (case invokeTrans L cfg run n word lang engine of
        (Inr ans, effs) \<Rightarrow> (ans, effs @ [RedisHSet lang word ans])
      | (Inl err, effs) \<Rightarrow>
          (case fetchFrom L cfg run word lang (Suc n) rest of
             (res, effs') \<Rightarrow> (res, effs @ effs')))"

definition fetch ::
  "golib \<Rightarrow> config \<Rightarrow> os \<Rightarrow> string list \<Rightarrow> string \<Rightarrow> string \<Rightarrow> string \<times> effect list" where
  "fetch L cfg run engines word lang = fetchFrom L cfg run word lang 0 engines"

text \<open>
  The reply of \<^verbatim>\<open>client.HGet\<close>: the value, or an error, which is \<^verbatim>\<open>redis.Nil\<close>
  when the key or the field does not exist and anything else otherwise.
\<close>

datatype redis_error = RedisNil | RedisFailure string

type_synonym redis_client = "string \<Rightarrow> string \<Rightarrow> redis_error + string"

text \<open>
  The handler of \<^verbatim>\<open>GET /translate/:word/to/:lang\<close>: the status and body written
  with \<^verbatim>\<open>gctx.String\<close>, and the effects. \<open>client lang word\<close> is the reply that
  Redis gives to the handler's \<^verbatim>\<open>HGet\<close>, and \<open>engines\<close> the value of the
  process-wide variable when \<^verbatim>\<open>fetch\<close> reads it.
\<close>

definition StatusOK :: nat where
  "StatusOK = 200"

definition handler ::
  "golib \<Rightarrow> config \<Rightarrow> os \<Rightarrow> string list \<Rightarrow> redis_client \<Rightarrow> string \<Rightarrow> string
     \<Rightarrow> (nat \<times> string) \<times> effect list" where
  "handler L cfg run engines client wordParam langParam =
     (let word = ToLower L (TrimSpace L wordParam);
          lang = ToLower L (TrimSpace L langParam)
      in if word = [] then ((StatusOK, []), [])
         else if lang = [] then ((StatusOK, []), [])
         else (case client lang word of
                 Inr val \<Rightarrow> ((StatusOK, val), [RedisHGet lang word])
               | Inl err \<Rightarrow>
                   (case fetch L cfg run engines word lang of
                      (ans, effs) \<Rightarrow> ((StatusOK, ans), RedisHGet lang word # effs))))"

subsection \<open>The notification loop\<close>

text \<open>
  The state of \<^verbatim>\<open>notificationLoop\<close> between two rounds of its \<^verbatim>\<open>select\<close>:
  whether \<^verbatim>\<open>bot\<close> is non-nil, and \<^verbatim>\<open>batch\<close>.
\<close>

record notifier =
  bot :: bool
  batch :: "string list"

text \<open>
  What a round of the \<^verbatim>\<open>select\<close> receives: a message from \<^verbatim>\<open>notifyChannel\<close>, or a
  tick. A tick carries the error that \<^verbatim>\<open>bot.Send\<close> returns if this round calls it
  (\<open>None\<close> when the send succeeds).
\<close>

datatype stimulus = Msg string | Tick "string option"

text \<open>The loop starts with an empty batch; \<open>botOk\<close> tells whether \<^verbatim>\<open>NewBotAPI\<close> succeeded.\<close>

definition startLoop :: "bool \<Rightarrow> notifier" where
  "startLoop botOk = \<lparr>bot = botOk, batch = []\<rparr>"

text \<open>One round: the new state and the texts handed to \<^verbatim>\<open>bot.Send\<close>.\<close>

fun loopRound :: "notifier \<Rightarrow> stimulus \<Rightarrow> notifier \<times> string list" where
  "loopRound s (Msg msg) = (s\<lparr>batch := batch s @ [msg]\<rparr>, [])"
| "loopRound s (Tick sendErr) =
     (if length (batch s) = 0 then (s, [])
      else (let msg = Join (batch s) [CHR 0x0A]
            in if \<not> bot s then (s\<lparr>batch := []\<rparr>, [])
               else (case sendErr of
                       Some err \<Rightarrow> (s, [msg])
                     | None \<Rightarrow> (s\<lparr>batch := []\<rparr>, [msg]))))"

fun loopRounds :: "notifier \<Rightarrow> stimulus list \<Rightarrow> notifier \<times> string list" where
  "loopRounds s [] = (s, [])"
| "loopRounds s (x # xs) =
     (case loopRound s x of
        (s', sent) \<Rightarrow> (case loopRounds s' xs of (s'', sent') \<Rightarrow> (s'', sent @ sent')))"

subsection \<open>The cache\<close>

text \<open>
  The Redis database as the janitor sees it: each key holds a hash, as every key that
  the program writes does, and a hash maps fields to values. Both levels are
  association lists read through \<^const>\<open>map_of\<close>. The order of a list stands for the
  order in which Redis and Go's \<^verbatim>\<open>range\<close> over a map enumerate, which neither of
  them specifies.
\<close>

type_synonym hash = "(string \<times> string) list"

type_synonym db = "(string \<times> hash) list"

text \<open>\<^verbatim>\<open>client.Keys("*").Val()\<close>: every key, once.\<close>

definition Keys :: "db \<Rightarrow> string list" where
  "Keys d = map fst (AList.clearjunk d)"

text \<open>\<^verbatim>\<open>client.HGetAll(key).Val()\<close>: every field of the hash, once, with its value.\<close>

definition HGetAll :: "db \<Rightarrow> string \<Rightarrow> hash" where
  "HGetAll d key = (case map_of d key of None \<Rightarrow> [] | Some h \<Rightarrow> AList.clearjunk h)"

text \<open>
  \<^verbatim>\<open>client.HDel(key, field)\<close>. Redis removes a key when its hash has lost its last
  field.
\<close>

definition HDel :: "db \<Rightarrow> string \<Rightarrow> string \<Rightarrow> db" where
  "HDel d key field =
     (case map_of d key of
        None \<Rightarrow> d
      | Some h \<Rightarrow>
          (let h' = AList.delete field h
           in if h' = [] then AList.delete key d else AList.update key h' d))"

text \<open>The reply to \<^verbatim>\<open>client.HGet(key, field)\<close> of a database that can be reached.\<close>

definition HGet :: "db \<Rightarrow> redis_client" where
  "HGet d key field =
     (case map_of d key of
        None \<Rightarrow> Inl RedisNil
      | Some h \<Rightarrow> (case map_of h field of None \<Rightarrow> Inl RedisNil | Some v \<Rightarrow> Inr v))"

subsection \<open>Runes and decimal numbers\<close>

text \<open>
  \<^verbatim>\<open>for _, char := range value\<close> decodes the bytes of \<open>value\<close> as UTF-8. A byte that
  does not start a well-formed sequence yields U+FFFD and is one byte wide.
\<close>

definition contByte :: "nat \<Rightarrow> bool" where
  "contByte b = (0x80 \<le> b \<and> b \<le> 0xBF)"

fun decodeRune :: "nat list \<Rightarrow> nat \<times> nat" where
  "decodeRune [] = (0xFFFD, 0)"
| "decodeRune (b0 # bs) =
     (if b0 < 0x80 then (b0, 1)
      else if 0xC2 \<le> b0 \<and> b0 \<le> 0xDF then
        (case bs of
           b1 # _ \<Rightarrow>
             if contByte b1 then ((b0 mod 0x20) * 0x40 + b1 mod 0x40, 2) else (0xFFFD, 1)
         | _ \<Rightarrow> (0xFFFD, 1))
      else if 0xE0 \<le> b0 \<and> b0 \<le> 0xEF then
        (case bs of
           b1 # b2 # _ \<Rightarrow>
             if (if b0 = 0xE0 then 0xA0 else 0x80) \<le> b1
                \<and> b1 \<le> (if b0 = 0xED then 0x9F else 0xBF) \<and> contByte b2
             then ((b0 mod 0x10) * 0x1000 + (b1 mod 0x40) * 0x40 + b2 mod 0x40, 3)
             else (0xFFFD, 1)
         | _ \<Rightarrow> (0xFFFD, 1))
      else if 0xF0 \<le> b0 \<and> b0 \<le> 0xF4 then
        (case bs of
           b1 # b2 # b3 # _ \<Rightarrow>
             if (if b0 = 0xF0 then 0x90 else 0x80) \<le> b1
                \<and> b1 \<le> (if b0 = 0xF4 then 0x8F else 0xBF) \<and> contByte b2 \<and> contByte b3
             then ((b0 mod 0x08) * 0x40000 + (b1 mod 0x40) * 0x1000
                   + (b2 mod 0x40) * 0x40 + b3 mod 0x40, 4)
             else (0xFFFD, 1)
         | _ \<Rightarrow> (0xFFFD, 1))
      else (0xFFFD, 1))"

function runesOf :: "nat list \<Rightarrow> nat list" where
  "runesOf [] = []"
| "runesOf (b # bs) = (case decodeRune (b # bs) of (r, w) \<Rightarrow> r # runesOf (drop (w - 1) bs))"
  by pat_completeness auto
termination
  by (relation "measure length") auto

definition runes :: "string \<Rightarrow> nat list" where
  "runes s = runesOf (map of_char s)"

text \<open>
  \<^verbatim>\<open>unicode.IsGraphic\<close>: letters, marks, numbers, punctuation, symbols and spaces.
  Up to U+00FF the answer comes from a table in the package, which has every code
  point from U+0020 to U+007E and from U+00A0 to U+00FF except the soft hyphen U+00AD.
\<close>

definition IsGraphic :: "golib \<Rightarrow> nat \<Rightarrow> bool" where
  "IsGraphic L r =
     (if r \<le> 0xFF then (0x20 \<le> r \<and> r \<le> 0x7E) \<or> (0xA0 \<le> r \<and> r \<noteq> 0xAD)
      else GraphicRanges L r)"

text \<open>How \<^verbatim>\<open>fmt.Sprint\<close> prints a count: in decimal.\<close>

definition digit :: "nat \<Rightarrow> char" where
  "digit d = ''0123456789'' ! d"

function itoa :: "nat \<Rightarrow> string" where
  "itoa n = (if n < 10 then [digit n] else itoa (n div 10) @ [digit (n mod 10)])"
  by pat_completeness auto
termination
  by (relation "measure id") auto

declare itoa.simps [simp del]

subsection \<open>The janitor: cleanup\<close>

text \<open>
  \<^verbatim>\<open>stats\<close> is a Go map from language to count; reading a missing key gives 0. The
  counters are Go \<^verbatim>\<open>int\<close>s that only count entries of the database, so they are
  natural numbers here.
\<close>

type_synonym stats = "(string \<times> nat) list"

definition statsAt :: "stats \<Rightarrow> string \<Rightarrow> nat" where
  "statsAt stats lang = (case map_of stats lang of None \<Rightarrow> 0 | Some n \<Rightarrow> n)"

definition statsInc :: "stats \<Rightarrow> string \<Rightarrow> stats" where
  "statsInc stats lang = AList.update lang (statsAt stats lang + 1) stats"

text \<open>
  The loops of \<^verbatim>\<open>removeEmptyTranslations\<close>, inner and outer. The state is the
  database, \<^verbatim>\<open>removed\<close> and \<^verbatim>\<open>stats\<close>.
\<close>

fun removeEmptyFields :: "string \<Rightarrow> hash \<Rightarrow> db \<times> nat \<times> stats \<Rightarrow> db \<times> nat \<times> stats" where
  "removeEmptyFields lang [] s = s"
| "removeEmptyFields lang ((word, value) # rest) (d, removed, stats) =
     (if value = []
      then removeEmptyFields lang rest (HDel d lang word, removed + 1, statsInc stats lang)
      else removeEmptyFields lang rest (d, removed, stats))"

fun removeEmptyKeys :: "string list \<Rightarrow> db \<times> nat \<times> stats \<Rightarrow> db \<times> nat \<times> stats" where
  "removeEmptyKeys [] s = s"
| "removeEmptyKeys (lang # rest) (d, removed, stats) =
     removeEmptyKeys rest (removeEmptyFields lang (HGetAll d lang) (d, removed, stats))"

text \<open>
  The lines of a summary after the first: one for each entry of \<^verbatim>\<open>stats\<close>. Go does not
  specify the order in which \<^verbatim>\<open>range\<close> visits a map; \<open>ord\<close> is the order it takes.
\<close>

type_synonym map_order = "stats \<Rightarrow> stats"

definition statLines :: "map_order \<Rightarrow> stats \<Rightarrow> string list" where
  "statLines ord stats = map (\<lambda>(lang, count). lang @ '': '' @ itoa count @ '' removes'') (ord stats)"

definition removeEmptyTranslations :: "map_order \<Rightarrow> db \<Rightarrow> db \<times> effect list" where
  "removeEmptyTranslations ord d =
     (case removeEmptyKeys (Keys d) (d, 0, []) of
        (d', removed, stats) \<Rightarrow>
          if removed > 0
          then (let text = (''[info] removed '' @ itoa removed @ '' trashed (empty) translations'')
                             # statLines ord stats
                in (d', [GoChanSend (Join text [CHR 0x0A])]))
          else (d', []))"

text \<open>
  The innermost loop of \<^verbatim>\<open>removeNonPrintableTranslations\<close>: whether it reaches the
  body of its \<^verbatim>\<open>if\<close>, which it leaves with \<^verbatim>\<open>break\<close>.
\<close>

fun someNonGraphic :: "golib \<Rightarrow> nat list \<Rightarrow> bool" where
  "someNonGraphic L [] = False"
| "someNonGraphic L (char # rest) =
     (if \<not> IsGraphic L char then True else someNonGraphic L rest)"

fun removeNonPrintableFields ::
  "golib \<Rightarrow> string \<Rightarrow> hash \<Rightarrow> db \<times> nat \<times> stats \<Rightarrow> db \<times> nat \<times> stats" where
  "removeNonPrintableFields L lang [] s = s"
| "removeNonPrintableFields L lang ((word, value) # rest) (d, removed, stats) =
     (if someNonGraphic L (runes value)
      then removeNonPrintableFields L lang rest (HDel d lang word, removed + 1, statsInc stats lang)
      else removeNonPrintableFields L lang rest (d, removed, stats))"

fun removeNonPrintableKeys ::
  "golib \<Rightarrow> string list \<Rightarrow> db \<times> nat \<times> stats \<Rightarrow> db \<times> nat \<times> stats" where
  "removeNonPrintableKeys L [] s = s"
| "removeNonPrintableKeys L (lang # rest) (d, removed, stats) =
     removeNonPrintableKeys L rest
       (removeNonPrintableFields L lang (HGetAll d lang) (d, removed, stats))"

definition removeNonPrintableTranslations :: "golib \<Rightarrow> map_order \<Rightarrow> db \<Rightarrow> db \<times> effect list" where
  "removeNonPrintableTranslations L ord d =
     (case removeNonPrintableKeys L (Keys d) (d, 0, []) of
        (d', removed, stats) \<Rightarrow>
          if removed > 0
          then (let text = (''[info] removed '' @ itoa removed @ '' non-printable translations'')
                             # statLines ord stats
                in (d', [GoChanSend (Join text [CHR 0x0A])]))
          else (d', []))"

text \<open>
  \<^verbatim>\<open>cleanup\<close>: the database afterwards and the effects. \<open>ord1\<close> and \<open>ord2\<close> are the orders
  in which the two passes range over their \<^verbatim>\<open>stats\<close>.
\<close>

definition cleanup :: "golib \<Rightarrow> map_order \<Rightarrow> map_order \<Rightarrow> db \<Rightarrow> db \<times> effect list" where
  "cleanup L ord1 ord2 d =
     (case removeEmptyTranslations ord1 d of
        (d1, effs1) \<Rightarrow>
          (case removeNonPrintableTranslations L ord2 d1 of
             (d2, effs2) \<Rightarrow> (d2, effs1 @ effs2)))"

subsection \<open>The notification channel\<close>

text \<open>
  \<^verbatim>\<open>notifyChannel = make(chan string)\<close> has no buffer. A send on a Go channel that
  holds \<open>queued\<close> elements of \<open>cap\<close> completes at once when there is room in the
  buffer or a receiver is waiting; otherwise the sender waits.
\<close>

definition notifyChannelCap :: nat where
  "notifyChannelCap = 0"

definition sendCompletes :: "nat \<Rightarrow> nat \<Rightarrow> bool \<Rightarrow> bool" where
  "sendCompletes cap queued receiverWaiting = (queued < cap \<or> receiverWaiting)"

text \<open>
  Where \<^verbatim>\<open>notificationLoop\<close>, the only receiver, can be: inside
  \<^verbatim>\<open>tgbotapi.NewBotAPI\<close> before its loop, waiting in the \<^verbatim>\<open>select\<close>, or in the
  branch of a tick, which calls \<^verbatim>\<open>bot.Send\<close>. It receives only in the \<^verbatim>\<open>select\<close>.
\<close>

datatype phase = Initializing | Selecting | Flushing

definition receiving :: "phase \<Rightarrow> bool" where
  "receiving p = (p = Selecting)"

text \<open>
  Whether the goroutine that performs an effect gets past it without waiting for the
  notification loop, when the loop is in phase \<open>p\<close>. Starting a goroutine never waits.
\<close>

fun proceeds :: "phase \<Rightarrow> effect \<Rightarrow> bool" where
  "proceeds p (ChanSend s) = sendCompletes notifyChannelCap 0 (receiving p)"
| "proceeds p (GoChanSend s) = True"
| "proceeds p (Exec argv) = True"
| "proceeds p (RedisHGet key field) = True"
| "proceeds p (RedisHSet key field val) = True"

text \<open>The first message, sent by \<^verbatim>\<open>main\<close> itself.\<close>

definition mainStarted :: "effect list" where
  "mainStarted = [GoChanSend ''import-lang backend started'']"

subsection \<open>Notions used to state the properties\<close>

text \<open>The value the database holds for a field of a key.\<close>

definition hget :: "db \<Rightarrow> string \<Rightarrow> string \<Rightarrow> string option" where
  "hget d key field = (case map_of d key of None \<Rightarrow> None | Some h \<Rightarrow> map_of h field)"

text \<open>
  The loops of the two passes of the janitor differ only in their test; these are the
  loops with the test as a parameter.
\<close>

fun sweepFields ::
  "(string \<Rightarrow> bool) \<Rightarrow> string \<Rightarrow> hash \<Rightarrow> db \<times> nat \<times> stats \<Rightarrow> db \<times> nat \<times> stats" where
  "sweepFields bad lang [] s = s"
| "sweepFields bad lang ((word, value) # rest) (d, removed, stats) =
     (if bad value
      then sweepFields bad lang rest (HDel d lang word, removed + 1, statsInc stats lang)
      else sweepFields bad lang rest (d, removed, stats))"

fun sweepKeys ::
  "(string \<Rightarrow> bool) \<Rightarrow> string list \<Rightarrow> db \<times> nat \<times> stats \<Rightarrow> db \<times> nat \<times> stats" where
  "sweepKeys bad [] s = s"
| "sweepKeys bad (lang # rest) (d, removed, stats) =
     sweepKeys bad rest (sweepFields bad lang (HGetAll d lang) (d, removed, stats))"

text \<open>A value with a rune that is not graphic.\<close>

definition nonPrintable :: "golib \<Rightarrow> string \<Rightarrow> bool" where
  "nonPrintable L value = (\<exists>r \<in> set (runes value). \<not> IsGraphic L r)"

text \<open>
  The number of fields of a hash whose value is bad, the languages that have such a
  field with their numbers, and the number of such fields in the whole database.
\<close>

definition badCount :: "(string \<Rightarrow> bool) \<Rightarrow> db \<Rightarrow> string \<Rightarrow> nat" where
  "badCount bad d lang = length (filter (\<lambda>(word, value). bad value) (HGetAll d lang))"

definition perLanguage :: "(string \<Rightarrow> bool) \<Rightarrow> db \<Rightarrow> stats" where
  "perLanguage bad d =
     map (\<lambda>lang. (lang, badCount bad d lang)) (filter (\<lambda>lang. 0 < badCount bad d lang) (Keys d))"

definition badTotal :: "(string \<Rightarrow> bool) \<Rightarrow> db \<Rightarrow> nat" where
  "badTotal bad d = sum_list (map (badCount bad d) (Keys d))"

text \<open>
  A summary: nothing when the total is 0, otherwise one message with the total in its
  first line and a line for each language.
\<close>

definition summary :: "string \<Rightarrow> nat \<Rightarrow> string list \<Rightarrow> effect list" where
  "summary what n ls =
     (if n = 0 then []
      else [GoChanSend (Join ((''[info] removed '' @ itoa n @ what) # ls) [CHR 0x0A])])"

definition statLine :: "string \<times> nat \<Rightarrow> string" where
  "statLine = (\<lambda>(lang, count). lang @ '': '' @ itoa count @ '' removes'')"

text \<open>
  The list the specification describes for engine discovery: the preferred engine at
  the front, all other elements in their original order.
\<close>

definition preferredFirst :: "string list \<Rightarrow> string list" where
  "preferredFirst es = (if ''google'' \<in> set es then ''google'' # remove1 ''google'' es else es)"

subsection \<open>Concrete inputs\<close>

text \<open>
  A library for the concrete inputs: what the three functions do on ASCII text.
\<close>

definition asciiLower :: "char \<Rightarrow> char" where
  "asciiLower c =
     (case map_of (zip ''ABCDEFGHIJKLMNOPQRSTUVWXYZ'' ''abcdefghijklmnopqrstuvwxyz'') c of
        None \<Rightarrow> c
      | Some l \<Rightarrow> l)"

definition asciiSpace :: "char \<Rightarrow> bool" where
  "asciiSpace c = (c \<in> set [CHR 0x09, CHR 0x0A, CHR 0x0B, CHR 0x0C, CHR 0x0D, CHR 0x20])"

definition asciiTrim :: "string \<Rightarrow> string" where
  "asciiTrim s = rev (dropWhile asciiSpace (rev (dropWhile asciiSpace s)))"

definition asciiLib :: golib where
  "asciiLib = \<lparr>ToLower = map asciiLower, TrimSpace = asciiTrim, GraphicRanges = (\<lambda>r. True)\<rparr>"

definition transCfg :: config where
  "transCfg = \<lparr>Command = ''/usr/bin/trans''\<rparr>"

text \<open>A discovery that lists three engines, the preferred one last.\<close>

definition threeEngines :: os where
  "threeEngines n argv =
     \<lparr>exitErr = None, stdout = [],
      combined = ''bing'' @ [CHR 0x0A] @ '' yandex'' @ [CHR 0x0A] @ ''* google'' @ [CHR 0x0A]\<rparr>"

text \<open>A discovery that exits cleanly and prints no word.\<close>

definition noEngines :: os where
  "noEngines n argv = \<lparr>exitErr = None, stdout = [], combined = ''--'' @ [CHR 0x0A] @ '' ''\<rparr>"

text \<open>
  A world in which the first process fails, the second prints only white space and
  the third prints a translation.
\<close>

definition thirdAnswers :: os where
  "thirdAnswers n argv =
     (if n = 0 then \<lparr>exitErr = Some ''exit status 1'', stdout = [], combined = ''no route''\<rparr>
      else if n = 1 then \<lparr>exitErr = None, stdout = '' '' @ [CHR 0x0A], combined = '' '' @ [CHR 0x0A]\<rparr>
      else \<lparr>exitErr = None, stdout = ''Katze'' @ [CHR 0x0A], combined = ''Katze'' @ [CHR 0x0A]\<rparr>)"

text \<open>A world in which every process fails.\<close>

definition allFail :: os where
  "allFail n argv = \<lparr>exitErr = Some ''exit status 1'', stdout = [], combined = []\<rparr>"

text \<open>The database of the specification's example.\<close>

definition exampleDb :: db where
  "exampleDb = [(''en'', [(''a'', []), (''b'', ''ok''), (''c'', CHR 0x01 # ''bad'')])]"

section \<open>Engine discovery\<close>

lemma moveGoogle_absent:
  "''google'' \<notin> set rest \<Longrightarrow> moveGoogle i rest engines = engines"
  by (induction rest arbitrary: i) auto

lemma moveGoogle_first:
  "''google'' \<notin> set xs \<Longrightarrow>
   moveGoogle i (xs @ ''google'' # ys) engines =
     (if i + length xs = 0 then engines
      else engines[0 := engines ! (i + length xs), i + length xs := engines ! 0])"
  by (induction xs arbitrary: i) auto

lemma first_occurrence_split:
  assumes "i < length es" and "es ! i = x" and "\<forall>j<i. es ! j \<noteq> x"
  shows "es = take i es @ x # drop (Suc i) es \<and> x \<notin> set (take i es)"
proof -
  have "es = take i es @ x # drop (Suc i) es"
    using assms(1,2) id_take_nth_drop[of i es] by metis
  moreover have "x \<notin> set (take i es)"
    using assms by (auto simp: in_set_conv_nth)
  ultimately show ?thesis by simp
qed

lemma threeEngines_found:
  "collectEngines (SplitLines (combined (threeEngines 0 [Command transCfg, ''-S''])))
     = [''bing'', ''yandex'', ''google'']"
  by (simp add: threeEngines_def FindString_def isWordChar_def)

text \<open>
  C1, as the specification states it, fails: with the preferred engine at index 2 the
  two other engines come out in the opposite order.
\<close>

theorem getEngines_order_counterexample:
  "exitErr (threeEngines 0 [Command transCfg, ''-S'']) = None
   \<and> collectEngines (SplitLines (combined (threeEngines 0 [Command transCfg, ''-S''])))
       = [''bing'', ''yandex'', ''google'']
   \<and> fst (getEngines transCfg threeEngines) = Inr [''google'', ''yandex'', ''bing'']
   \<and> fst (getEngines transCfg threeEngines)
       \<noteq> Inr (preferredFirst [''bing'', ''yandex'', ''google''])"
  by (simp add: getEngines_def Let_def threeEngines_def FindString_def isWordChar_def
        preferredFirst_def)

text \<open>
  C1, amended: \<^verbatim>\<open>getEngines\<close> exchanges the first occurrence of the preferred engine
  with the element at index 0. A list without the preferred engine, or with it at
  index 0, comes out as it is. With the first occurrence at an index \<open>i > 0\<close>, the
  preferred engine is at index 0 afterwards, the element that was at index 0 is at
  index \<open>i\<close>, and every other element is where it was.
\<close>

theorem getEngines_swaps_preferred:
  assumes ok: "exitErr (run 0 [Command cfg, ''-S'']) = None"
    and es: "es = collectEngines (SplitLines (combined (run 0 [Command cfg, ''-S''])))"
  shows "(''google'' \<notin> set es \<longrightarrow> fst (getEngines cfg run) = Inr es)
       \<and> (es \<noteq> [] \<and> es ! 0 = ''google'' \<longrightarrow> fst (getEngines cfg run) = Inr es)
       \<and> (\<forall>i. 0 < i \<and> i < length es \<and> es ! i = ''google'' \<and> (\<forall>j<i. es ! j \<noteq> ''google'') \<longrightarrow>
            fst (getEngines cfg run) = Inr (es[0 := ''google'', i := es ! 0]))"
proof -
  have g: "fst (getEngines cfg run) = Inr (moveGoogle 0 es es)"
    using ok es by (simp add: getEngines_def Let_def)
  have a: "''google'' \<notin> set es \<Longrightarrow> moveGoogle 0 es es = es"
    by (rule moveGoogle_absent)
  have b: "es \<noteq> [] \<and> es ! 0 = ''google'' \<Longrightarrow> moveGoogle 0 es es = es"
    by (cases es) auto
  have c: "moveGoogle 0 es es = es[0 := ''google'', i := es ! 0]"
    if "0 < i \<and> i < length es \<and> es ! i = ''google'' \<and> (\<forall>j<i. es ! j \<noteq> ''google'')" for i
  proof -
    from that first_occurrence_split[of i es "''google''"]
    have sp: "es = take i es @ ''google'' # drop (Suc i) es"
      and ni: "''google'' \<notin> set (take i es)"
      by auto
    have "moveGoogle 0 (take i es @ ''google'' # drop (Suc i) es) es
          = es[0 := es ! i, i := es ! 0]"
      using moveGoogle_first[OF ni, of 0 "drop (Suc i) es" es] that by simp
    with sp that show ?thesis by simp
  qed
  show ?thesis using g a b c by simp
qed

theorem getEngines_swaps_preferred_witness:
  "exitErr (threeEngines 0 [Command transCfg, ''-S'']) = None
   \<and> (0::nat) < 2 \<and> 2 < length [''bing'', ''yandex'', ''google'']
   \<and> [''bing'', ''yandex'', ''google''] ! 2 = ''google''
   \<and> [''bing'', ''yandex'', ''google''] ! 0 \<noteq> ''google''
   \<and> [''bing'', ''yandex'', ''google''] ! 1 \<noteq> ''google''
   \<and> fst (getEngines transCfg threeEngines) = Inr [''google'', ''yandex'', ''bing'']"
proof -
  have ok: "exitErr (threeEngines 0 [Command transCfg, ''-S'']) = None"
    by (simp add: threeEngines_def)
  have nth: "\<forall>j<2. [''bing'', ''yandex'', ''google''] ! j \<noteq> ''google''"
    by (simp add: less_Suc_eq numeral_2_eq_2)
  have "\<forall>i. 0 < i \<and> i < length [''bing'', ''yandex'', ''google'']
          \<and> [''bing'', ''yandex'', ''google''] ! i = ''google''
          \<and> (\<forall>j<i. [''bing'', ''yandex'', ''google''] ! j \<noteq> ''google'') \<longrightarrow>
          fst (getEngines transCfg threeEngines)
            = Inr ([''bing'', ''yandex'', ''google''][0 := ''google'', i := [''bing'', ''yandex'', ''google''] ! 0])"
    using getEngines_swaps_preferred[of threeEngines transCfg "[''bing'', ''yandex'', ''google'']"]
      ok threeEngines_found
    by simp
  from this[THEN spec, of 2] nth ok show ?thesis
    by simp
qed

section \<open>Translation\<close>

lemma invokeTrans_effects:
  "snd (invokeTrans L cfg run n word lang engine) = [Exec (transArgv cfg word lang engine)]"
  by (simp add: invokeTrans_def Let_def split: option.splits)

lemma fetchFrom_succeeds:
  assumes "k < length es"
    and "\<forall>i<k. isl (fst (invokeTrans L cfg run (n + i) word lang (es ! i)))"
    and "fst (invokeTrans L cfg run (n + k) word lang (es ! k)) = Inr ans"
  shows "fetchFrom L cfg run word lang n es =
           (ans, map (\<lambda>engine. Exec (transArgv cfg word lang engine)) (take (Suc k) es)
                 @ [RedisHSet lang word ans])"
  using assms
proof (induction es arbitrary: n k)
  case Nil
  then show ?case by simp
next
  case (Cons e es)
  obtain res effs where inv: "invokeTrans L cfg run n word lang e = (res, effs)"
    by (cases "invokeTrans L cfg run n word lang e")
  have effs: "effs = [Exec (transArgv cfg word lang e)]"
    using invokeTrans_effects[of L cfg run n word lang e] inv by simp
  show ?case
  proof (cases k)
    case 0
    with Cons.prems inv have "res = Inr ans" by simp
    with inv effs 0 show ?thesis by simp
  next
    case (Suc k')
    have "isl (fst (invokeTrans L cfg run (n + 0) word lang ((e # es) ! 0)))"
      using Cons.prems(2) Suc by blast
    with inv obtain err where res: "res = Inl err" by (cases res) auto
    have k': "k' < length es" using Cons.prems(1) Suc by simp
    have fails: "\<forall>i<k'. isl (fst (invokeTrans L cfg run (Suc n + i) word lang (es ! i)))"
    proof (intro allI impI)
      fix i assume "i < k'"
      then have "Suc i < k" using Suc by simp
      with Cons.prems(2) have "isl (fst (invokeTrans L cfg run (n + Suc i) word lang ((e # es) ! Suc i)))"
        by blast
      then show "isl (fst (invokeTrans L cfg run (Suc n + i) word lang (es ! i)))" by simp
    qed
    have ok: "fst (invokeTrans L cfg run (Suc n + k') word lang (es ! k')) = Inr ans"
      using Cons.prems(3) Suc by simp
    have "fetchFrom L cfg run word lang (Suc n) es =
           (ans, map (\<lambda>engine. Exec (transArgv cfg word lang engine)) (take (Suc k') es)
                 @ [RedisHSet lang word ans])"
      by (rule Cons.IH[OF k' fails ok])
    with inv res effs Suc show ?thesis by simp
  qed
qed

lemma fetchFrom_all_fail:
  assumes "\<forall>i<length es. isl (fst (invokeTrans L cfg run (n + i) word lang (es ! i)))"
  shows "fetchFrom L cfg run word lang n es =
           (word, map (\<lambda>engine. Exec (transArgv cfg word lang engine)) es
                  @ onTranslationError word lang AllEnginesFailed)"
  using assms
proof (induction es arbitrary: n)
  case Nil
  then show ?case by simp
next
  case (Cons e es)
  obtain res effs where inv: "invokeTrans L cfg run n word lang e = (res, effs)"
    by (cases "invokeTrans L cfg run n word lang e")
  have effs: "effs = [Exec (transArgv cfg word lang e)]"
    using invokeTrans_effects[of L cfg run n word lang e] inv by simp
  have "isl (fst (invokeTrans L cfg run (n + 0) word lang ((e # es) ! 0)))"
    using Cons.prems by blast
  with inv obtain err where res: "res = Inl err" by (cases res) auto
  have fails: "\<forall>i<length es. isl (fst (invokeTrans L cfg run (Suc n + i) word lang (es ! i)))"
  proof (intro allI impI)
    fix i assume "i < length es"
    then have "Suc i < length (e # es)" by simp
    with Cons.prems have "isl (fst (invokeTrans L cfg run (n + Suc i) word lang ((e # es) ! Suc i)))"
      by blast
    then show "isl (fst (invokeTrans L cfg run (Suc n + i) word lang (es ! i)))" by simp
  qed
  have "fetchFrom L cfg run word lang (Suc n) es =
           (word, map (\<lambda>engine. Exec (transArgv cfg word lang engine)) es
                  @ onTranslationError word lang AllEnginesFailed)"
    by (rule Cons.IH[OF fails])
  with inv res effs show ?case by simp
qed

text \<open>
  C3: when the engines before position \<open>k\<close> of the list fail and the engine at position
  \<open>k\<close> succeeds (positions counted from 0, so these are the first \<open>k + 1\<close> engines),
  \<^verbatim>\<open>fetch\<close> starts one process for each of these engines, in the order of the list,
  and no other; it then writes the result under (lang, word) with a single
  \<^verbatim>\<open>HSet\<close> and returns it.
\<close>

theorem fetch_first_success:
  assumes "k < length engines"
    and "\<forall>i<k. isl (fst (invokeTrans L cfg run i word lang (engines ! i)))"
    and "fst (invokeTrans L cfg run k word lang (engines ! k)) = Inr ans"
  shows "fetch L cfg run engines word lang =
           (ans, map (\<lambda>engine. Exec (transArgv cfg word lang engine)) (take (Suc k) engines)
                 @ [RedisHSet lang word ans])"
  unfolding fetch_def
  using fetchFrom_succeeds[of k engines L cfg run 0 word lang ans] assms by simp

lemma asciiLib_sel:
  "ToLower asciiLib = map asciiLower" "TrimSpace asciiLib = asciiTrim"
  by (simp_all add: asciiLib_def)

theorem fetch_first_success_witness:
  "(2::nat) < length [''google'', ''bing'', ''yandex'']
   \<and> isl (fst (invokeTrans asciiLib transCfg thirdAnswers 0 ''cat'' ''de'' ''google''))
   \<and> isl (fst (invokeTrans asciiLib transCfg thirdAnswers 1 ''cat'' ''de'' ''bing''))
   \<and> fst (invokeTrans asciiLib transCfg thirdAnswers 2 ''cat'' ''de'' ''yandex'') = Inr ''katze''
   \<and> fetch asciiLib transCfg thirdAnswers [''google'', ''bing'', ''yandex''] ''cat'' ''de'' =
       (''katze'',
        [Exec [''/usr/bin/trans'', ''-e'', ''google'', ''-b'', '':de'', ''cat''],
         Exec [''/usr/bin/trans'', ''-e'', ''bing'', ''-b'', '':de'', ''cat''],
         Exec [''/usr/bin/trans'', ''-e'', ''yandex'', ''-b'', '':de'', ''cat''],
         RedisHSet ''de'' ''cat'' ''katze''])"
proof -
  have f0: "isl (fst (invokeTrans asciiLib transCfg thirdAnswers 0 ''cat'' ''de'' ''google''))"
    by (simp add: invokeTrans_def thirdAnswers_def)
  have f1: "isl (fst (invokeTrans asciiLib transCfg thirdAnswers 1 ''cat'' ''de'' ''bing''))"
    by (simp add: invokeTrans_def thirdAnswers_def asciiLib_sel asciiTrim_def asciiSpace_def)
  have s2: "fst (invokeTrans asciiLib transCfg thirdAnswers 2 ''cat'' ''de'' ''yandex'') = Inr ''katze''"
    by (simp add: invokeTrans_def thirdAnswers_def asciiLib_sel asciiTrim_def asciiSpace_def
          asciiLower_def)
  have fails: "\<forall>i<2. isl (fst (invokeTrans asciiLib transCfg thirdAnswers i ''cat'' ''de''
                   ([''google'', ''bing'', ''yandex''] ! i)))"
    using f0 f1 by (simp add: less_Suc_eq numeral_2_eq_2)
  have "fetch asciiLib transCfg thirdAnswers [''google'', ''bing'', ''yandex''] ''cat'' ''de'' =
          (''katze'', map (\<lambda>engine. Exec (transArgv transCfg ''cat'' ''de'' engine))
                        (take (Suc 2) [''google'', ''bing'', ''yandex''])
                      @ [RedisHSet ''de'' ''cat'' ''katze''])"
    using fetch_first_success[of 2 "[''google'', ''bing'', ''yandex'']" asciiLib transCfg
        thirdAnswers "''cat''" "''de''" "''katze''"] fails s2
    by simp
  then show ?thesis
    using f0 f1 s2 by (simp add: transArgv_def transCfg_def)
qed

text \<open>
  C5: when every engine of the list fails, \<^verbatim>\<open>fetch\<close> returns the word it was given,
  which is not empty when the word is not, and its only effects besides the processes
  it started are one send on the notification channel, of an error message that names
  the word and the language. The send is made by \<^verbatim>\<open>fetch\<close> itself, which returns once
  the notification loop has received it.
\<close>

theorem fetch_all_engines_fail:
  assumes "\<forall>i<length engines. isl (fst (invokeTrans L cfg run i word lang (engines ! i)))"
    and "word \<noteq> []"
  shows "fetch L cfg run engines word lang =
           (word, map (\<lambda>engine. Exec (transArgv cfg word lang engine)) engines
                  @ [ChanSend (''[error] '' @ word @ '' (to '' @ lang @ '') ''
                               @ ''failed to translate in all engines'')])
         \<and> fst (fetch L cfg run engines word lang) \<noteq> []"
  unfolding fetch_def
  using fetchFrom_all_fail[of engines L cfg run 0 word lang] assms
  by (simp add: onTranslationError_def)

theorem fetch_all_engines_fail_witness:
  "isl (fst (invokeTrans asciiLib transCfg allFail 0 ''cat'' ''de'' ''google''))
   \<and> isl (fst (invokeTrans asciiLib transCfg allFail 1 ''cat'' ''de'' ''bing''))
   \<and> ''cat'' \<noteq> []
   \<and> fetch asciiLib transCfg allFail [''google'', ''bing''] ''cat'' ''de'' =
       (''cat'',
        [Exec [''/usr/bin/trans'', ''-e'', ''google'', ''-b'', '':de'', ''cat''],
         Exec [''/usr/bin/trans'', ''-e'', ''bing'', ''-b'', '':de'', ''cat''],
         ChanSend ''[error] cat (to de) failed to translate in all engines''])"
proof -
  have f0: "isl (fst (invokeTrans asciiLib transCfg allFail 0 ''cat'' ''de'' ''google''))"
    by (simp add: invokeTrans_def allFail_def)
  have f1: "isl (fst (invokeTrans asciiLib transCfg allFail 1 ''cat'' ''de'' ''bing''))"
    by (simp add: invokeTrans_def allFail_def)
  have fails: "\<forall>i<length [''google'', ''bing'']. isl (fst (invokeTrans asciiLib transCfg allFail i
                   ''cat'' ''de'' ([''google'', ''bing''] ! i)))"
    using f0 f1 by (simp add: less_Suc_eq)
  show ?thesis
    using fetch_all_engines_fail[of "[''google'', ''bing'']" asciiLib transCfg allFail
        "''cat''" "''de''"] fails f0 f1
    by (simp add: transArgv_def transCfg_def)
qed

section \<open>The request handler\<close>

lemma HGet_hget:
  "HGet d key field = (case hget d key field of None \<Rightarrow> Inl RedisNil | Some v \<Rightarrow> Inr v)"
  by (simp add: HGet_def hget_def split: option.splits)

text \<open>
  C4: with a word and a language that are not empty after normalization, a reply of
  Redis that carries a value makes the handler answer that value with status 200; its
  only effect is the \<^verbatim>\<open>HGet\<close> itself, so no process is started and nothing is written.
  A reply that carries an error makes the handler answer what \<^verbatim>\<open>fetch\<close> returns,
  whatever the error is; a database that holds no value for the field replies with the
  error \<^verbatim>\<open>redis.Nil\<close>.
\<close>

theorem handler_cache_hit_or_miss:
  assumes "word = ToLower L (TrimSpace L wordParam)"
    and "lang = ToLower L (TrimSpace L langParam)"
    and "word \<noteq> []" and "lang \<noteq> []"
  shows "(\<forall>val. client lang word = Inr val \<longrightarrow>
            handler L cfg run engines client wordParam langParam
              = ((200, val), [RedisHGet lang word]))
       \<and> (\<forall>err. client lang word = Inl err \<longrightarrow>
            handler L cfg run engines client wordParam langParam
              = ((200, fst (fetch L cfg run engines word lang)),
                 RedisHGet lang word # snd (fetch L cfg run engines word lang)))
       \<and> (\<forall>d val. hget d lang word = Some val \<longrightarrow> HGet d lang word = Inr val)
       \<and> (\<forall>d. hget d lang word = None \<longrightarrow> HGet d lang word = Inl RedisNil)"
  using assms
  by (auto simp: handler_def Let_def StatusOK_def HGet_hget split: sum.splits prod.splits)

theorem handler_cache_hit_or_miss_witness:
  "ToLower asciiLib (TrimSpace asciiLib '' B'') = ''b''
   \<and> ToLower asciiLib (TrimSpace asciiLib ''EN '') = ''en''
   \<and> ''b'' \<noteq> [] \<and> ''en'' \<noteq> []
   \<and> HGet exampleDb ''en'' ''b'' = Inr ''ok''
   \<and> handler asciiLib transCfg allFail [''google''] (HGet exampleDb) '' B'' ''EN ''
       = ((200, ''ok''), [RedisHGet ''en'' ''b''])
   \<and> HGet exampleDb ''en'' ''d'' = Inl RedisNil
   \<and> ToLower asciiLib (TrimSpace asciiLib ''D'') = ''d''
   \<and> handler asciiLib transCfg allFail [''google''] (HGet exampleDb) ''D'' ''EN ''
       = ((200, fst (fetch asciiLib transCfg allFail [''google''] ''d'' ''en'')),
          RedisHGet ''en'' ''d'' # snd (fetch asciiLib transCfg allFail [''google''] ''d'' ''en''))"
proof -
  have w: "ToLower asciiLib (TrimSpace asciiLib '' B'') = ''b''"
    by (simp add: asciiLib_sel asciiTrim_def asciiSpace_def asciiLower_def)
  have w': "ToLower asciiLib (TrimSpace asciiLib ''D'') = ''d''"
    by (simp add: asciiLib_sel asciiTrim_def asciiSpace_def asciiLower_def)
  have l: "ToLower asciiLib (TrimSpace asciiLib ''EN '') = ''en''"
    by (simp add: asciiLib_sel asciiTrim_def asciiSpace_def asciiLower_def)
  have hit: "HGet exampleDb ''en'' ''b'' = Inr ''ok''"
    by (simp add: HGet_def exampleDb_def)
  have miss: "HGet exampleDb ''en'' ''d'' = Inl RedisNil"
    by (simp add: HGet_def exampleDb_def)
  have h1: "handler asciiLib transCfg allFail [''google''] (HGet exampleDb) '' B'' ''EN ''
       = ((200, ''ok''), [RedisHGet ''en'' ''b''])"
    using handler_cache_hit_or_miss[OF w[symmetric] l[symmetric],
        of "HGet exampleDb" transCfg allFail "[''google'']"] hit
    by simp
  have h2: "handler asciiLib transCfg allFail [''google''] (HGet exampleDb) ''D'' ''EN ''
       = ((200, fst (fetch asciiLib transCfg allFail [''google''] ''d'' ''en'')),
          RedisHGet ''en'' ''d'' # snd (fetch asciiLib transCfg allFail [''google''] ''d'' ''en''))"
    using handler_cache_hit_or_miss[OF w'[symmetric] l[symmetric],
        of "HGet exampleDb" transCfg allFail "[''google'']"] miss
    by simp
  show ?thesis using w w' l hit miss h1 h2 by simp
qed

text \<open>
  C7: a request whose word or whose language is empty after normalization is answered
  with status 200 and an empty body, and the handler has no effect: it sends nothing to
  Redis and starts no process.
\<close>

theorem handler_empty_input:
  assumes "ToLower L (TrimSpace L wordParam) = [] \<or> ToLower L (TrimSpace L langParam) = []"
  shows "handler L cfg run engines client wordParam langParam = ((200, []), [])"
  using assms by (auto simp: handler_def Let_def StatusOK_def)

theorem handler_empty_input_witness:
  "ToLower asciiLib (TrimSpace asciiLib [CHR 0x20, CHR 0x09]) = []
   \<and> handler asciiLib transCfg allFail [''google''] (HGet exampleDb) [CHR 0x20, CHR 0x09] ''en''
       = ((200, []), [])
   \<and> ToLower asciiLib (TrimSpace asciiLib []) = []
   \<and> handler asciiLib transCfg allFail [''google''] (HGet exampleDb) ''cat'' []
       = ((200, []), [])"
proof -
  have a: "ToLower asciiLib (TrimSpace asciiLib [CHR 0x20, CHR 0x09]) = []"
    by (simp add: asciiLib_sel asciiTrim_def asciiSpace_def)
  have b: "ToLower asciiLib (TrimSpace asciiLib []) = []"
    by (simp add: asciiLib_sel asciiTrim_def)
  show ?thesis
    using handler_empty_input[of asciiLib "[CHR 0x20, CHR 0x09]" "''en''" transCfg allFail
        "[''google'']" "HGet exampleDb"]
      handler_empty_input[of asciiLib "''cat''" "[]" transCfg allFail
        "[''google'']" "HGet exampleDb"] a b
    by simp
qed

section \<open>Discovery that finds no engine\<close>

lemma collectEngines_none:
  "\<forall>line \<in> set ls. FindString line = [] \<Longrightarrow> collectEngines ls = []"
  by (induction ls) (auto simp: Let_def)

text \<open>
  C10: when the discovery command exits without error and no line of its output has a
  word token, \<^verbatim>\<open>getEngines\<close> returns the empty list and no error, and the goroutine
  of \<^verbatim>\<open>main\<close> assigns that list to \<^verbatim>\<open>engines\<close>. With that value of \<^verbatim>\<open>engines\<close>,
  \<^verbatim>\<open>fetch\<close> starts no process and returns its word, and so does the handler on every
  request whose \<^verbatim>\<open>HGet\<close> is answered with an error.
\<close>

theorem discovery_without_engines:
  assumes "exitErr (run 0 [Command cfg, ''-S'']) = None"
    and "\<forall>line \<in> set (SplitLines (combined (run 0 [Command cfg, ''-S'']))). FindString line = []"
  shows "fst (getEngines cfg run) = Inr []
       \<and> fst (mainDiscovery cfg run engines) = []
       \<and> fetch L cfg run' (fst (mainDiscovery cfg run engines)) word lang =
           (word, [ChanSend (''[error] '' @ word @ '' (to '' @ lang @ '') ''
                             @ ''failed to translate in all engines'')])
       \<and> (word = ToLower L (TrimSpace L wordParam) \<and> lang = ToLower L (TrimSpace L langParam)
            \<and> word \<noteq> [] \<and> lang \<noteq> [] \<and> client lang word = Inl err \<longrightarrow>
          handler L cfg run' (fst (mainDiscovery cfg run engines)) client wordParam langParam =
            ((200, word),
             [RedisHGet lang word,
              ChanSend (''[error] '' @ word @ '' (to '' @ lang @ '') ''
                        @ ''failed to translate in all engines'')]))"
proof -
  have none: "collectEngines (SplitLines (combined (run 0 [Command cfg, ''-S'']))) = []"
    using assms(2) by (rule collectEngines_none)
  have g: "fst (getEngines cfg run) = Inr []"
    using assms(1) none by (simp add: getEngines_def Let_def)
  have m: "fst (mainDiscovery cfg run engines) = []"
    using g by (cases "getEngines cfg run") (simp add: mainDiscovery_def)
  have f: "fetch L cfg run' [] word lang =
           (word, [ChanSend (''[error] '' @ word @ '' (to '' @ lang @ '') ''
                             @ ''failed to translate in all engines'')])"
    by (simp add: fetch_def onTranslationError_def)
  show ?thesis
    using g m f by (auto simp: handler_def Let_def StatusOK_def)
qed

theorem discovery_without_engines_witness:
  "exitErr (noEngines 0 [Command transCfg, ''-S'']) = None
   \<and> SplitLines (combined (noEngines 0 [Command transCfg, ''-S''])) = [''--'', '' '']
   \<and> FindString ''--'' = [] \<and> FindString '' '' = []
   \<and> fst (mainDiscovery transCfg noEngines defaultEngines) = []
   \<and> ToLower asciiLib (TrimSpace asciiLib ''Cat'') = ''cat''
   \<and> ToLower asciiLib (TrimSpace asciiLib ''de'') = ''de''
   \<and> HGet exampleDb ''de'' ''cat'' = Inl RedisNil
   \<and> handler asciiLib transCfg thirdAnswers (fst (mainDiscovery transCfg noEngines defaultEngines))
         (HGet exampleDb) ''Cat'' ''de'' =
       ((200, ''cat''),
        [RedisHGet ''de'' ''cat'',
         ChanSend ''[error] cat (to de) failed to translate in all engines''])"
proof -
  have ok: "exitErr (noEngines 0 [Command transCfg, ''-S'']) = None"
    by (simp add: noEngines_def)
  have ls: "SplitLines (combined (noEngines 0 [Command transCfg, ''-S''])) = [''--'', '' '']"
    by (simp add: noEngines_def)
  have t: "FindString ''--'' = []" "FindString '' '' = []"
    by (simp_all add: FindString_def isWordChar_def)
  have no: "\<forall>line \<in> set (SplitLines (combined (noEngines 0 [Command transCfg, ''-S'']))).
              FindString line = []"
    using ls t by simp
  have w: "ToLower asciiLib (TrimSpace asciiLib ''Cat'') = ''cat''"
    by (simp add: asciiLib_sel asciiTrim_def asciiSpace_def asciiLower_def)
  have l: "ToLower asciiLib (TrimSpace asciiLib ''de'') = ''de''"
    by (simp add: asciiLib_sel asciiTrim_def asciiSpace_def asciiLower_def)
  have miss: "HGet exampleDb ''de'' ''cat'' = Inl RedisNil"
    by (simp add: HGet_def exampleDb_def)
  have inst: "fst (mainDiscovery transCfg noEngines defaultEngines) = []
      \<and> handler asciiLib transCfg thirdAnswers
           (fst (mainDiscovery transCfg noEngines defaultEngines)) (HGet exampleDb) ''Cat'' ''de'' =
          ((200, ''cat''),
           [RedisHGet ''de'' ''cat'',
            ChanSend ''[error] cat (to de) failed to translate in all engines''])"
    using discovery_without_engines[where run = noEngines and cfg = transCfg
        and engines = defaultEngines and L = asciiLib and run' = thirdAnswers
        and word = "''cat''" and lang = "''de''" and wordParam = "''Cat''"
        and langParam = "''de''" and client = "HGet exampleDb" and err = RedisNil]
      ok no w l miss
    by auto
  show ?thesis
    by (intro conjI ok ls t w l miss inst[THEN conjunct1] inst[THEN conjunct2])
qed

section \<open>The notification loop\<close>

lemma loopRounds_messages:
  "loopRounds s (map Msg ms) = (s\<lparr>batch := batch s @ ms\<rparr>, [])"
  by (induction ms arbitrary: s) auto

lemma loopRounds_append:
  "loopRounds s (xs @ ys) =
     (case loopRounds s xs of
        (s', sent) \<Rightarrow> (case loopRounds s' ys of (s'', sent') \<Rightarrow> (s'', sent @ sent')))"
  by (induction xs arbitrary: s) (auto split: prod.splits)

text \<open>
  C6: on a tick with a batch that is not empty, a loop whose \<^verbatim>\<open>bot\<close> is nil drops the
  batch and sends nothing; a loop with a \<^verbatim>\<open>bot\<close> sends the batch, joined by line
  feeds, and empties it when the send succeeds and keeps it as it is when the send
  fails. After a failed send and any messages \<open>ms\<close> received since, the next tick sends
  the old batch followed by \<open>ms\<close>. A tick with an empty batch changes nothing and sends
  nothing.
\<close>

theorem loopRound_tick:
  "(batch s \<noteq> [] \<and> \<not> bot s \<longrightarrow> loopRound s (Tick r) = (s\<lparr>batch := []\<rparr>, []))
   \<and> (batch s \<noteq> [] \<and> bot s \<longrightarrow>
        loopRound s (Tick None) = (s\<lparr>batch := []\<rparr>, [Join (batch s) [CHR 0x0A]]))
   \<and> (batch s \<noteq> [] \<and> bot s \<longrightarrow>
        loopRound s (Tick (Some err)) = (s, [Join (batch s) [CHR 0x0A]]))
   \<and> (batch s \<noteq> [] \<and> bot s \<longrightarrow>
        loopRounds s (Tick (Some err) # map Msg ms @ [Tick r]) =
          (s\<lparr>batch := (case r of None \<Rightarrow> [] | Some err' \<Rightarrow> batch s @ ms)\<rparr>,
           [Join (batch s) [CHR 0x0A], Join (batch s @ ms) [CHR 0x0A]]))
   \<and> (batch s = [] \<longrightarrow> loopRound s (Tick r) = (s, []))"
proof -
  have retry: "loopRounds s (Tick (Some err) # map Msg ms @ [Tick r]) =
          (s\<lparr>batch := (case r of None \<Rightarrow> [] | Some err' \<Rightarrow> batch s @ ms)\<rparr>,
           [Join (batch s) [CHR 0x0A], Join (batch s @ ms) [CHR 0x0A]])"
    if "batch s \<noteq> []" and "bot s"
  proof -
    have first: "loopRound s (Tick (Some err)) = (s, [Join (batch s) [CHR 0x0A]])"
      using that by simp
    have last: "loopRounds (s\<lparr>batch := batch s @ ms\<rparr>) [Tick r] =
          (s\<lparr>batch := (case r of None \<Rightarrow> [] | Some err' \<Rightarrow> batch s @ ms)\<rparr>,
           [Join (batch s @ ms) [CHR 0x0A]])"
      using that by (cases r) (simp_all add: Let_def)
    have "loopRounds s (map Msg ms @ [Tick r]) =
          (s\<lparr>batch := (case r of None \<Rightarrow> [] | Some err' \<Rightarrow> batch s @ ms)\<rparr>,
           [Join (batch s @ ms) [CHR 0x0A]])"
      using last by (simp add: loopRounds_append loopRounds_messages)
    with first show ?thesis by simp
  qed
  show ?thesis
    using retry by (simp add: Let_def)
qed

theorem loopRound_tick_witness:
  "batch \<lparr>bot = False, batch = [''a'', ''b'']\<rparr> \<noteq> []
   \<and> \<not> bot \<lparr>bot = False, batch = [''a'', ''b'']\<rparr>
   \<and> loopRound \<lparr>bot = False, batch = [''a'', ''b'']\<rparr> (Tick None) = (\<lparr>bot = False, batch = []\<rparr>, [])
   \<and> batch \<lparr>bot = True, batch = [''a'', ''b'']\<rparr> \<noteq> []
   \<and> bot \<lparr>bot = True, batch = [''a'', ''b'']\<rparr>
   \<and> loopRound \<lparr>bot = True, batch = [''a'', ''b'']\<rparr> (Tick None)
       = (\<lparr>bot = True, batch = []\<rparr>, [[CHR ''a'', CHR 0x0A, CHR ''b'']])
   \<and> loopRound \<lparr>bot = True, batch = [''a'', ''b'']\<rparr> (Tick (Some ''timeout''))
       = (\<lparr>bot = True, batch = [''a'', ''b'']\<rparr>, [[CHR ''a'', CHR 0x0A, CHR ''b'']])
   \<and> loopRounds \<lparr>bot = True, batch = [''a'', ''b'']\<rparr>
         [Tick (Some ''timeout''), Msg ''c'', Tick None]
       = (\<lparr>bot = True, batch = []\<rparr>,
          [[CHR ''a'', CHR 0x0A, CHR ''b''], [CHR ''a'', CHR 0x0A, CHR ''b'', CHR 0x0A, CHR ''c'']])
   \<and> batch (startLoop True) = []
   \<and> loopRound (startLoop True) (Tick None) = (startLoop True, [])"
  using loopRound_tick[of "\<lparr>bot = False, batch = [''a'', ''b'']\<rparr>" None]
    loopRound_tick[of "\<lparr>bot = True, batch = [''a'', ''b'']\<rparr>" None "''timeout''" "[''c'']"]
    loopRound_tick[of "startLoop True" None]
  by (simp add: startLoop_def)

section \<open>The janitor\<close>

subsection \<open>The loops of a pass\<close>

lemma removeEmptyFields_sweep:
  "removeEmptyFields lang es s = sweepFields (\<lambda>v. v = []) lang es s"
  by (induction lang es s rule: removeEmptyFields.induct) auto

lemma removeEmptyKeys_sweep:
  "removeEmptyKeys ks s = sweepKeys (\<lambda>v. v = []) ks s"
  by (induction ks s rule: removeEmptyKeys.induct) (auto simp: removeEmptyFields_sweep)

lemma removeNonPrintableFields_sweep:
  "removeNonPrintableFields L lang es s = sweepFields (\<lambda>v. someNonGraphic L (runes v)) lang es s"
  by (induction L lang es s rule: removeNonPrintableFields.induct) auto

lemma removeNonPrintableKeys_sweep:
  "removeNonPrintableKeys L ks s = sweepKeys (\<lambda>v. someNonGraphic L (runes v)) ks s"
  by (induction L ks s rule: removeNonPrintableKeys.induct) (auto simp: removeNonPrintableFields_sweep)

lemma map_of_HDel_other: "k' \<noteq> k \<Longrightarrow> map_of (HDel d k f) k' = map_of d k'"
  by (auto simp: HDel_def Let_def update_conv' delete_conv' split: option.splits)

lemma delete_Nil_map_of: "AList.delete f h = [] \<Longrightarrow> f' \<noteq> f \<Longrightarrow> map_of h f' = None"
proof -
  assume a: "AList.delete f h = []" and b: "f' \<noteq> f"
  have "map_of (AList.delete f h) f' = map_of h f'" using b by simp
  with a show ?thesis by simp
qed

lemma hget_HDel:
  "hget (HDel d k f) k' f' = (if k' = k \<and> f' = f then None else hget d k' f')"
proof (cases "map_of d k")
  case None
  then show ?thesis by (auto simp: hget_def HDel_def)
next
  case (Some h)
  show ?thesis
  proof (cases "AList.delete f h = []")
    case True
    with Some show ?thesis
      by (auto simp: hget_def HDel_def delete_conv' dest: delete_Nil_map_of)
  next
    case False
    with Some show ?thesis
      by (auto simp: hget_def HDel_def update_conv' delete_conv')
  qed
qed

lemma in_HGetAll: "(w, v) \<in> set (HGetAll d l) \<longleftrightarrow> hget d l w = Some v"
proof (cases "map_of d l")
  case None
  then show ?thesis by (simp add: HGetAll_def hget_def)
next
  case (Some h)
  have "(w, v) \<in> set (AList.clearjunk h) \<longleftrightarrow> map_of (AList.clearjunk h) w = Some v"
    using map_of_eq_Some_iff[OF distinct_clearjunk, of h w v] by simp
  with Some show ?thesis by (simp add: HGetAll_def hget_def map_of_clearjunk)
qed

lemma hget_sweepFields:
  "hget (fst (sweepFields bad lang es (d, r, st))) l w =
     (if l = lang \<and> (\<exists>v. (w, v) \<in> set es \<and> bad v) then None else hget d l w)"
proof (induction es arbitrary: d r st)
  case Nil
  then show ?case by simp
next
  case (Cons e es)
  obtain word val where e: "e = (word, val)" by (cases e)
  show ?case
    unfolding e using Cons.IH by (auto simp: hget_HDel)
qed

lemma map_of_sweepFields_other:
  "l \<noteq> lang \<Longrightarrow> map_of (fst (sweepFields bad lang es (d, r, st))) l = map_of d l"
proof (induction es arbitrary: d r st)
  case Nil
  then show ?case by simp
next
  case (Cons e es)
  obtain word val where e: "e = (word, val)" by (cases e)
  show ?case
    unfolding e using Cons by (auto simp: map_of_HDel_other)
qed

lemma removed_sweepFields:
  "fst (snd (sweepFields bad lang es (d, r, st))) = r + length (filter (\<lambda>(w, v). bad v) es)"
proof (induction es arbitrary: d r st)
  case Nil
  then show ?case by simp
next
  case (Cons e es)
  obtain word val where e: "e = (word, val)" by (cases e)
  show ?case
    unfolding e using Cons.IH by auto
qed

lemma statsInc_fresh:
  "lang \<notin> fst ` set st \<Longrightarrow> statsInc st lang = st @ [(lang, 1)]"
  by (induction st) (auto simp: statsInc_def statsAt_def map_of_eq_None_iff split: option.splits)

lemma update_last_key:
  "k \<notin> fst ` set st \<Longrightarrow> AList.update k v (st @ [(k, n)]) = st @ [(k, v)]"
  by (induction st) auto

lemma statsInc_last:
  "lang \<notin> fst ` set st \<Longrightarrow> statsInc (st @ [(lang, n)]) lang = st @ [(lang, Suc n)]"
proof -
  assume a: "lang \<notin> fst ` set st"
  then have "map_of st lang = None" by (simp add: map_of_eq_None_iff)
  then have "map_of (st @ [(lang, n)]) lang = Some n" by (simp add: map_add_def)
  then show ?thesis using a by (simp add: statsInc_def statsAt_def update_last_key)
qed

lemma stats_sweepFields_last:
  "lang \<notin> fst ` set st \<Longrightarrow>
   snd (snd (sweepFields bad lang es (d, r, st @ [(lang, n)])))
     = st @ [(lang, n + length (filter (\<lambda>(w, v). bad v) es))]"
proof (induction es arbitrary: d r n)
  case Nil
  then show ?case by simp
next
  case (Cons e es)
  obtain word val where e: "e = (word, val)" by (cases e)
  show ?case
    unfolding e using Cons by (auto simp: statsInc_last)
qed

lemma stats_sweepFields_fresh:
  "lang \<notin> fst ` set st \<Longrightarrow>
   snd (snd (sweepFields bad lang es (d, r, st)))
     = (if length (filter (\<lambda>(w, v). bad v) es) = 0 then st
        else st @ [(lang, length (filter (\<lambda>(w, v). bad v) es))])"
proof (induction es arbitrary: d r)
  case Nil
  then show ?case by simp
next
  case (Cons e es)
  obtain word val where e: "e = (word, val)" by (cases e)
  show ?case
    unfolding e using Cons stats_sweepFields_last[of lang st bad es _ _ 1]
    by (auto simp: statsInc_fresh)
qed

lemma sweepFields_none:
  "length (filter (\<lambda>(w, v). bad v) es) = 0 \<Longrightarrow> sweepFields bad lang es s = s"
proof (induction es)
  case Nil
  then show ?case by simp
next
  case (Cons e es)
  obtain word val where e: "e = (word, val)" by (cases e)
  obtain d r st where s: "s = (d, r, st)" by (cases s)
  show ?case
    using Cons unfolding e s by (auto split: if_splits)
qed

lemma hget_sweepKeys:
  "hget (fst (sweepKeys bad ks (d, r, st))) l w =
     (if l \<in> set ks \<and> (\<exists>v. hget d l w = Some v \<and> bad v) then None else hget d l w)"
proof (induction ks arbitrary: d r st)
  case Nil
  then show ?case by simp
next
  case (Cons k ks)
  obtain d' r' st' where s': "sweepFields bad k (HGetAll d k) (d, r, st) = (d', r', st')"
    by (cases "sweepFields bad k (HGetAll d k) (d, r, st)")
  have d': "hget d' l w = (if l = k \<and> (\<exists>v. hget d k w = Some v \<and> bad v) then None else hget d l w)"
    using hget_sweepFields[of bad k "HGetAll d k" d r st l w] s' by (simp add: in_HGetAll)
  show ?case
    using Cons.IH[of d' r' st'] s' d' by auto
qed

lemma badCount_cong: "map_of d' l = map_of d l \<Longrightarrow> badCount bad d' l = badCount bad d l"
  by (simp add: badCount_def HGetAll_def)

lemma counts_sweepKeys:
  assumes "distinct ks" and "fst ` set st \<inter> set ks = {}"
  shows "snd (sweepKeys bad ks (d, r, st)) =
           (r + sum_list (map (badCount bad d) ks),
            st @ map (\<lambda>l. (l, badCount bad d l)) (filter (\<lambda>l. 0 < badCount bad d l) ks))"
  using assms
proof (induction ks arbitrary: d r st)
  case Nil
  then show ?case by simp
next
  case (Cons k ks)
  obtain d' r' st' where s': "sweepFields bad k (HGetAll d k) (d, r, st) = (d', r', st')"
    by (cases "sweepFields bad k (HGetAll d k) (d, r, st)")
  have kst: "k \<notin> fst ` set st" using Cons.prems by auto
  have r': "r' = r + badCount bad d k"
    using removed_sweepFields[of bad k "HGetAll d k" d r st] s' by (simp add: badCount_def)
  have st': "st' = (if badCount bad d k = 0 then st else st @ [(k, badCount bad d k)])"
    using stats_sweepFields_fresh[OF kst, of bad "HGetAll d k" d r] s' by (simp add: badCount_def)
  have same: "badCount bad d' l = badCount bad d l" if "l \<in> set ks" for l
  proof -
    have "l \<noteq> k" using that Cons.prems by auto
    then have "map_of d' l = map_of d l"
      using map_of_sweepFields_other[of l k bad "HGetAll d k" d r st] s' by simp
    then show ?thesis by (rule badCount_cong)
  qed
  have m1: "map (badCount bad d') ks = map (badCount bad d) ks"
    using same by simp
  have m2: "filter (\<lambda>l. 0 < badCount bad d' l) ks = filter (\<lambda>l. 0 < badCount bad d l) ks"
    using same by (simp cong: filter_cong)
  have m3: "map (\<lambda>l. (l, badCount bad d' l)) (filter (\<lambda>l. 0 < badCount bad d l) ks)
            = map (\<lambda>l. (l, badCount bad d l)) (filter (\<lambda>l. 0 < badCount bad d l) ks)"
    using same by simp
  have dis: "distinct ks" using Cons.prems by simp
  have fresh: "fst ` set st' \<inter> set ks = {}"
    using Cons.prems st' by (auto split: if_splits)
  have "snd (sweepKeys bad ks (d', r', st')) =
           (r' + sum_list (map (badCount bad d') ks),
            st' @ map (\<lambda>l. (l, badCount bad d' l)) (filter (\<lambda>l. 0 < badCount bad d' l) ks))"
    by (rule Cons.IH[OF dis fresh])
  then show ?case
    using s' r' st' m1 m2 m3 by simp
qed

lemma sweepKeys_none:
  "\<forall>l\<in>set ks. badCount bad d l = 0 \<Longrightarrow> sweepKeys bad ks (d, r, st) = (d, r, st)"
proof (induction ks)
  case Nil
  then show ?case by simp
next
  case (Cons k ks)
  have "sweepFields bad k (HGetAll d k) (d, r, st) = (d, r, st)"
    using Cons.prems by (intro sweepFields_none) (simp add: badCount_def)
  then show ?case using Cons by simp
qed

lemma distinct_Keys: "distinct (Keys d)"
  by (simp add: Keys_def)

lemma set_Keys: "set (Keys d) = dom (map_of d)"
  using clearjunk_keys_set[of d] by (simp add: Keys_def dom_map_of_conv_image_fst)

lemma hget_None_notin_Keys: "l \<notin> set (Keys d) \<Longrightarrow> hget d l w = None"
  by (auto simp: set_Keys hget_def split: option.splits)

lemma badCount_zero_iff:
  "badCount bad d l = 0 \<longleftrightarrow> (\<forall>w v. hget d l w = Some v \<longrightarrow> \<not> bad v)"
proof -
  have "badCount bad d l = 0 \<longleftrightarrow> (\<forall>(w, v) \<in> set (HGetAll d l). \<not> bad v)"
    by (auto simp: badCount_def filter_empty_conv)
  then show ?thesis by (auto simp: in_HGetAll)
qed

lemma sweep_pass:
  "sweepKeys bad (Keys d) (d, 0, []) = (d', removed, stats) \<Longrightarrow>
     (\<forall>l w. hget d' l w = (case hget d l w of None \<Rightarrow> None | Some v \<Rightarrow> if bad v then None else Some v))
   \<and> removed = sum_list (map (badCount bad d) (Keys d))
   \<and> stats = map (\<lambda>l. (l, badCount bad d l)) (filter (\<lambda>l. 0 < badCount bad d l) (Keys d))"
proof -
  assume a: "sweepKeys bad (Keys d) (d, 0, []) = (d', removed, stats)"
  have h: "hget d' l w = (case hget d l w of None \<Rightarrow> None | Some v \<Rightarrow> if bad v then None else Some v)" for l w
  proof (cases "l \<in> set (Keys d)")
    case True
    then show ?thesis
      using hget_sweepKeys[of bad "Keys d" d 0 "[]" l w] a by (auto split: option.splits)
  next
    case False
    then have "hget d l w = None" by (rule hget_None_notin_Keys)
    then show ?thesis
      using hget_sweepKeys[of bad "Keys d" d 0 "[]" l w] a by simp
  qed
  have c: "snd (sweepKeys bad (Keys d) (d, 0, [])) =
           (0 + sum_list (map (badCount bad d) (Keys d)),
            [] @ map (\<lambda>l. (l, badCount bad d l)) (filter (\<lambda>l. 0 < badCount bad d l) (Keys d)))"
    by (rule counts_sweepKeys) (simp_all add: distinct_Keys)
  show ?thesis using h c a by simp
qed

lemma someNonGraphic_iff: "someNonGraphic L rs \<longleftrightarrow> (\<exists>r \<in> set rs. \<not> IsGraphic L r)"
  by (induction rs) auto

lemma nonPrintable_code: "(\<lambda>v. someNonGraphic L (runes v)) = nonPrintable L"
  by (simp add: nonPrintable_def someNonGraphic_iff fun_eq_iff)

lemma mset_statLines:
  "\<forall>st. mset (ord st) = mset st \<Longrightarrow> mset (statLines ord st) = image_mset statLine (mset st)"
proof -
  assume a: "\<forall>st. mset (ord st) = mset st"
  have "mset (statLines ord st) = image_mset statLine (mset (ord st))"
    by (simp add: statLines_def statLine_def)
  with a show ?thesis by simp
qed

lemma sweep_result:
  "\<exists>d'. sweepKeys bad (Keys d) (d, 0, []) = (d', badTotal bad d, perLanguage bad d)
     \<and> (\<forall>l w. hget d' l w =
           (case hget d l w of None \<Rightarrow> None | Some v \<Rightarrow> if bad v then None else Some v))"
proof -
  obtain d' removed stats where a: "sweepKeys bad (Keys d) (d, 0, []) = (d', removed, stats)"
    by (cases "sweepKeys bad (Keys d) (d, 0, [])")
  from sweep_pass[OF a] a show ?thesis
    by (auto simp: badTotal_def perLanguage_def)
qed

lemma removeEmptyTranslations_result:
  "\<exists>d1. removeEmptyTranslations ord d =
          (d1, summary '' trashed (empty) translations'' (badTotal (\<lambda>v. v = []) d)
                 (statLines ord (perLanguage (\<lambda>v. v = []) d)))
     \<and> (\<forall>l w. hget d1 l w =
           (case hget d l w of None \<Rightarrow> None | Some v \<Rightarrow> if v = [] then None else Some v))"
proof -
  obtain d1 where
    s: "sweepKeys (\<lambda>v. v = []) (Keys d) (d, 0, [])
          = (d1, badTotal (\<lambda>v. v = []) d, perLanguage (\<lambda>v. v = []) d)"
    and h: "\<forall>l w. hget d1 l w =
           (case hget d l w of None \<Rightarrow> None | Some v \<Rightarrow> if v = [] then None else Some v)"
    using sweep_result[of "\<lambda>v. v = []" d] by blast
  have "removeEmptyTranslations ord d =
          (d1, summary '' trashed (empty) translations'' (badTotal (\<lambda>v. v = []) d)
                 (statLines ord (perLanguage (\<lambda>v. v = []) d)))"
    using s by (simp add: removeEmptyTranslations_def removeEmptyKeys_sweep summary_def)
  with h show ?thesis by blast
qed

lemma removeNonPrintableTranslations_result:
  "\<exists>d2. removeNonPrintableTranslations L ord d =
          (d2, summary '' non-printable translations'' (badTotal (nonPrintable L) d)
                 (statLines ord (perLanguage (nonPrintable L) d)))
     \<and> (\<forall>l w. hget d2 l w =
           (case hget d l w of None \<Rightarrow> None
            | Some v \<Rightarrow> if nonPrintable L v then None else Some v))"
proof -
  obtain d2 where
    s: "sweepKeys (nonPrintable L) (Keys d) (d, 0, [])
          = (d2, badTotal (nonPrintable L) d, perLanguage (nonPrintable L) d)"
    and h: "\<forall>l w. hget d2 l w =
           (case hget d l w of None \<Rightarrow> None
            | Some v \<Rightarrow> if nonPrintable L v then None else Some v)"
    using sweep_result[of "nonPrintable L" d] by blast
  have "removeNonPrintableTranslations L ord d =
          (d2, summary '' non-printable translations'' (badTotal (nonPrintable L) d)
                 (statLines ord (perLanguage (nonPrintable L) d)))"
    using s
    by (simp add: removeNonPrintableTranslations_def removeNonPrintableKeys_sweep
          nonPrintable_code summary_def)
  with h show ?thesis by blast
qed

lemma badCount_card:
  "badCount bad d l = card {w. \<exists>v. hget d l w = Some v \<and> bad v}"
proof -
  let ?es = "HGetAll d l"
  let ?S = "{e \<in> set ?es. bad (snd e)}"
  have dk: "distinct (map fst ?es)"
    by (simp add: HGetAll_def split: option.splits)
  then have de: "distinct ?es" by (rule distinct_map[THEN iffD1, THEN conjunct1])
  have inj: "inj_on fst (set ?es)"
    using dk by (simp add: distinct_map)
  have "badCount bad d l = length (filter (\<lambda>e. bad (snd e)) ?es)"
    by (simp add: badCount_def case_prod_unfold)
  also have "\<dots> = card (set (filter (\<lambda>e. bad (snd e)) ?es))"
    using de distinct_card[of "filter (\<lambda>e. bad (snd e)) ?es"] by simp
  also have "set (filter (\<lambda>e. bad (snd e)) ?es) = ?S" by auto
  also have "card ?S = card (fst ` ?S)"
    by (rule card_image[symmetric]) (rule inj_on_subset[OF inj], auto)
  also have "fst ` ?S = {w. \<exists>v. hget d l w = Some v \<and> bad v}"
    by (auto simp: in_HGetAll[symmetric] image_iff)
  finally show ?thesis .
qed

subsection \<open>The example of the specification\<close>

lemma ord_single:
  assumes "\<forall>st. mset (ord st) = mset st"
  shows "ord [x] = [x]"
proof -
  have "mset (ord [x]) = {#x#}" using assms by simp
  then show ?thesis by (simp add: mset_single_iff_right)
qed

lemma runes_bad: "runes (CHR 0x01 # ''bad'') = [1, 98, 97, 100]"
  by (simp add: runes_def)

lemma runes_ok: "runes ''ok'' = [111, 107]"
  by (simp add: runes_def)

lemma itoa_1: "itoa (Suc 0) = ''1''"
  by (simp add: itoa.simps digit_def)

lemma example_first_pass:
  assumes "\<forall>st. mset (ord st) = mset st"
  shows "removeEmptyTranslations ord exampleDb =
     ([(''en'', [(''b'', ''ok''), (''c'', CHR 0x01 # ''bad'')])],
      [GoChanSend (''[info] removed 1 trashed (empty) translations'' @ [CHR 0x0A]
                   @ ''en: 1 removes'')])"
  using ord_single[OF assms]
  by (simp add: removeEmptyTranslations_def exampleDb_def Keys_def HGetAll_def HDel_def
        statsInc_def statsAt_def statLines_def itoa_1)

lemma example_second_pass:
  assumes "\<forall>st. mset (ord st) = mset st"
  shows "removeNonPrintableTranslations L ord
           [(''en'', [(''b'', ''ok''), (''c'', CHR 0x01 # ''bad'')])] =
     ([(''en'', [(''b'', ''ok'')])],
      [GoChanSend (''[info] removed 1 non-printable translations'' @ [CHR 0x0A]
                   @ ''en: 1 removes'')])"
  using ord_single[OF assms]
  by (simp add: removeNonPrintableTranslations_def Keys_def HGetAll_def HDel_def
        statsInc_def statsAt_def statLines_def itoa_1 runes_bad runes_ok IsGraphic_def)

lemma example_cleanup:
  assumes "\<forall>st. mset (ord1 st) = mset st" and "\<forall>st. mset (ord2 st) = mset st"
  shows "cleanup L ord1 ord2 exampleDb =
     ([(''en'', [(''b'', ''ok'')])],
      [GoChanSend (''[info] removed 1 trashed (empty) translations'' @ [CHR 0x0A]
                   @ ''en: 1 removes''),
       GoChanSend (''[info] removed 1 non-printable translations'' @ [CHR 0x0A]
                   @ ''en: 1 removes'')])"
  by (simp add: cleanup_def example_first_pass[OF assms(1)] example_second_pass[OF assms(2)])

subsection \<open>The sweep\<close>

text \<open>
  C8: the first pass removes the fields whose value is the empty string and no other,
  the second removes from what the first has left the fields whose value has a rune
  that is not graphic and no other; every other field keeps its value. Each pass that
  has removed a field hands one message to a goroutine that sends it, and a pass that
  has removed none hands over nothing. The message gives the number of fields removed
  in its first line, followed by one line for each language that lost a field, with
  the number of fields it lost, in the order in which Go ranges over \<^verbatim>\<open>stats\<close>. The
  numbers are those of the fields with such a value. On the database of the example
  the fields \<open>a\<close> and \<open>c\<close> of \<open>en\<close> are removed, \<open>b\<close> stays, and each pass reports one
  removal, for \<open>en\<close>.
\<close>

theorem cleanup_removes_invalid_entries:
  assumes o1: "\<forall>st. mset (ord1 st) = mset st" and o2: "\<forall>st. mset (ord2 st) = mset st"
  shows "(\<exists>d1 d2 ls1 ls2.
            removeEmptyTranslations ord1 d =
              (d1, summary '' trashed (empty) translations'' (badTotal (\<lambda>v. v = []) d) ls1)
          \<and> removeNonPrintableTranslations L ord2 d1 =
              (d2, summary '' non-printable translations'' (badTotal (nonPrintable L) d1) ls2)
          \<and> cleanup L ord1 ord2 d =
              (d2, summary '' trashed (empty) translations'' (badTotal (\<lambda>v. v = []) d) ls1
                   @ summary '' non-printable translations'' (badTotal (nonPrintable L) d1) ls2)
          \<and> mset ls1 = image_mset statLine (mset (perLanguage (\<lambda>v. v = []) d))
          \<and> mset ls2 = image_mset statLine (mset (perLanguage (nonPrintable L) d1))
          \<and> (\<forall>l w. hget d1 l w =
                (case hget d l w of None \<Rightarrow> None
                 | Some v \<Rightarrow> if v = [] then None else Some v))
          \<and> (\<forall>l w. hget d2 l w =
                (case hget d1 l w of None \<Rightarrow> None
                 | Some v \<Rightarrow> if nonPrintable L v then None else Some v))
          \<and> (\<forall>l w. hget d2 l w =
                (case hget d l w of None \<Rightarrow> None
                 | Some v \<Rightarrow> if v = [] \<or> nonPrintable L v then None else Some v)))
       \<and> (\<forall>bad l. badCount bad d l = card {w. \<exists>v. hget d l w = Some v \<and> bad v})
       \<and> cleanup L ord1 ord2 exampleDb =
           ([(''en'', [(''b'', ''ok'')])],
            [GoChanSend (''[info] removed 1 trashed (empty) translations'' @ [CHR 0x0A]
                         @ ''en: 1 removes''),
             GoChanSend (''[info] removed 1 non-printable translations'' @ [CHR 0x0A]
                         @ ''en: 1 removes'')])"
proof -
  let ?ls1 = "statLines ord1 (perLanguage (\<lambda>v. v = []) d)"
  obtain d1 where
    p1: "removeEmptyTranslations ord1 d =
          (d1, summary '' trashed (empty) translations'' (badTotal (\<lambda>v. v = []) d) ?ls1)"
    and h1: "\<forall>l w. hget d1 l w =
           (case hget d l w of None \<Rightarrow> None | Some v \<Rightarrow> if v = [] then None else Some v)"
    using removeEmptyTranslations_result[of ord1 d] by blast
  let ?ls2 = "statLines ord2 (perLanguage (nonPrintable L) d1)"
  obtain d2 where
    p2: "removeNonPrintableTranslations L ord2 d1 =
          (d2, summary '' non-printable translations'' (badTotal (nonPrintable L) d1) ?ls2)"
    and h2: "\<forall>l w. hget d2 l w =
           (case hget d1 l w of None \<Rightarrow> None
            | Some v \<Rightarrow> if nonPrintable L v then None else Some v)"
    using removeNonPrintableTranslations_result[of L ord2 d1] by blast
  have c: "cleanup L ord1 ord2 d =
              (d2, summary '' trashed (empty) translations'' (badTotal (\<lambda>v. v = []) d) ?ls1
                   @ summary '' non-printable translations'' (badTotal (nonPrintable L) d1) ?ls2)"
    using p1 p2 by (simp add: cleanup_def)
  have m1: "mset ?ls1 = image_mset statLine (mset (perLanguage (\<lambda>v. v = []) d))"
    using o1 by (rule mset_statLines)
  have m2: "mset ?ls2 = image_mset statLine (mset (perLanguage (nonPrintable L) d1))"
    using o2 by (rule mset_statLines)
  have h: "\<forall>l w. hget d2 l w =
                (case hget d l w of None \<Rightarrow> None
                 | Some v \<Rightarrow> if v = [] \<or> nonPrintable L v then None else Some v)"
    using h1 h2 by (auto split: option.splits)
  have general: "\<exists>d1 d2 ls1 ls2.
            removeEmptyTranslations ord1 d =
              (d1, summary '' trashed (empty) translations'' (badTotal (\<lambda>v. v = []) d) ls1)
          \<and> removeNonPrintableTranslations L ord2 d1 =
              (d2, summary '' non-printable translations'' (badTotal (nonPrintable L) d1) ls2)
          \<and> cleanup L ord1 ord2 d =
              (d2, summary '' trashed (empty) translations'' (badTotal (\<lambda>v. v = []) d) ls1
                   @ summary '' non-printable translations'' (badTotal (nonPrintable L) d1) ls2)
          \<and> mset ls1 = image_mset statLine (mset (perLanguage (\<lambda>v. v = []) d))
          \<and> mset ls2 = image_mset statLine (mset (perLanguage (nonPrintable L) d1))
          \<and> (\<forall>l w. hget d1 l w =
                (case hget d l w of None \<Rightarrow> None
                 | Some v \<Rightarrow> if v = [] then None else Some v))
          \<and> (\<forall>l w. hget d2 l w =
                (case hget d1 l w of None \<Rightarrow> None
                 | Some v \<Rightarrow> if nonPrintable L v then None else Some v))
          \<and> (\<forall>l w. hget d2 l w =
                (case hget d l w of None \<Rightarrow> None
                 | Some v \<Rightarrow> if v = [] \<or> nonPrintable L v then None else Some v))"
    using p1 p2 c m1 m2 h1 h2 h by blast
  have counts: "\<forall>bad l. badCount bad d l = card {w. \<exists>v. hget d l w = Some v \<and> bad v}"
    by (simp add: badCount_card)
  show ?thesis
    using general counts example_cleanup[OF o1 o2, of L] by blast
qed

theorem cleanup_removes_invalid_entries_witness:
  "(\<forall>st. mset (rev st) = mset (st :: stats))
   \<and> cleanup asciiLib rev rev exampleDb =
       ([(''en'', [(''b'', ''ok'')])],
        [GoChanSend (''[info] removed 1 trashed (empty) translations'' @ [CHR 0x0A]
                     @ ''en: 1 removes''),
         GoChanSend (''[info] removed 1 non-printable translations'' @ [CHR 0x0A]
                     @ ''en: 1 removes'')])
   \<and> hget exampleDb ''en'' ''a'' = Some []
   \<and> hget (fst (cleanup asciiLib rev rev exampleDb)) ''en'' ''a'' = None
   \<and> hget exampleDb ''en'' ''b'' = Some ''ok''
   \<and> hget (fst (cleanup asciiLib rev rev exampleDb)) ''en'' ''b'' = Some ''ok''"
proof -
  have o: "\<forall>st. mset (rev st) = mset (st :: stats)" by simp
  have a: "hget exampleDb ''en'' ''a'' = Some []"
    and b: "hget exampleDb ''en'' ''b'' = Some ''ok''"
    by (simp_all add: hget_def exampleDb_def)
  have okp: "\<not> nonPrintable asciiLib ''ok''"
    by (simp add: nonPrintable_def runes_ok IsGraphic_def)
  from cleanup_removes_invalid_entries[OF o o, of exampleDb asciiLib]
  obtain d2 e where c: "cleanup asciiLib rev rev exampleDb = (d2, e)"
    and h: "\<forall>l w. hget d2 l w =
                (case hget exampleDb l w of None \<Rightarrow> None
                 | Some v \<Rightarrow> if v = [] \<or> nonPrintable asciiLib v then None else Some v)"
    and ex: "cleanup asciiLib rev rev exampleDb =
       ([(''en'', [(''b'', ''ok'')])],
        [GoChanSend (''[info] removed 1 trashed (empty) translations'' @ [CHR 0x0A]
                     @ ''en: 1 removes''),
         GoChanSend (''[info] removed 1 non-printable translations'' @ [CHR 0x0A]
                     @ ''en: 1 removes'')])"
    by blast
  have ha: "hget (fst (cleanup asciiLib rev rev exampleDb)) ''en'' ''a'' = None"
    using h[THEN spec, THEN spec, of "''en''" "''a''"] a c by simp
  have hb: "hget (fst (cleanup asciiLib rev rev exampleDb)) ''en'' ''b'' = Some ''ok''"
    using h[THEN spec, THEN spec, of "''en''" "''b''"] b c okp by simp
  show ?thesis
    by (intro conjI o ex a ha b hb)
qed

text \<open>
  C9: on the database that a sweep leaves, the loops of both passes remove nothing
  (the database, the count 0 and the empty \<^verbatim>\<open>stats\<close> come back as they went in), and
  a second sweep returns the same database and hands over no message.
\<close>

theorem cleanup_twice:
  assumes "cleanup L ord1 ord2 d = (d', effs)"
  shows "removeEmptyKeys (Keys d') (d', 0, []) = (d', 0, [])
       \<and> removeNonPrintableKeys L (Keys d') (d', 0, []) = (d', 0, [])
       \<and> cleanup L ord3 ord4 d' = (d', [])"
proof -
  obtain d1 e1 where p1: "removeEmptyTranslations ord1 d = (d1, e1)"
    and h1: "\<forall>l w. hget d1 l w =
           (case hget d l w of None \<Rightarrow> None | Some v \<Rightarrow> if v = [] then None else Some v)"
    using removeEmptyTranslations_result[of ord1 d] by blast
  obtain d2 e2 where p2: "removeNonPrintableTranslations L ord2 d1 = (d2, e2)"
    and h2: "\<forall>l w. hget d2 l w =
           (case hget d1 l w of None \<Rightarrow> None
            | Some v \<Rightarrow> if nonPrintable L v then None else Some v)"
    using removeNonPrintableTranslations_result[of L ord2 d1] by blast
  have d': "d' = d2" using assms p1 p2 by (simp add: cleanup_def)
  have good: "v \<noteq> [] \<and> \<not> nonPrintable L v" if "hget d' l w = Some v" for l w v
    using that h1 h2 unfolding d' by (auto split: option.splits if_splits)
  have z1: "\<forall>l\<in>set (Keys d'). badCount (\<lambda>v. v = []) d' l = 0"
    using good by (auto simp: badCount_zero_iff)
  have z2: "\<forall>l\<in>set (Keys d'). badCount (nonPrintable L) d' l = 0"
    using good by (auto simp: badCount_zero_iff)
  have l1: "removeEmptyKeys (Keys d') (d', 0, []) = (d', 0, [])"
    using sweepKeys_none[OF z1] by (simp add: removeEmptyKeys_sweep)
  have l2: "removeNonPrintableKeys L (Keys d') (d', 0, []) = (d', 0, [])"
    using sweepKeys_none[OF z2] by (simp add: removeNonPrintableKeys_sweep nonPrintable_code)
  have "cleanup L ord3 ord4 d' = (d', [])"
    using l1 l2
    by (simp add: cleanup_def removeEmptyTranslations_def removeNonPrintableTranslations_def)
  with l1 l2 show ?thesis by simp
qed

theorem cleanup_twice_witness:
  "cleanup asciiLib rev rev exampleDb =
       ([(''en'', [(''b'', ''ok'')])],
        [GoChanSend (''[info] removed 1 trashed (empty) translations'' @ [CHR 0x0A]
                     @ ''en: 1 removes''),
         GoChanSend (''[info] removed 1 non-printable translations'' @ [CHR 0x0A]
                     @ ''en: 1 removes'')])
   \<and> removeEmptyKeys (Keys [(''en'', [(''b'', ''ok'')])]) ([(''en'', [(''b'', ''ok'')])], 0, [])
       = ([(''en'', [(''b'', ''ok'')])], 0, [])
   \<and> removeNonPrintableKeys asciiLib (Keys [(''en'', [(''b'', ''ok'')])])
         ([(''en'', [(''b'', ''ok'')])], 0, [])
       = ([(''en'', [(''b'', ''ok'')])], 0, [])
   \<and> cleanup asciiLib rev rev [(''en'', [(''b'', ''ok'')])] = ([(''en'', [(''b'', ''ok'')])], [])"
proof -
  have o: "\<forall>st. mset (rev st) = mset (st :: stats)" by simp
  have ex: "cleanup asciiLib rev rev exampleDb =
       ([(''en'', [(''b'', ''ok'')])],
        [GoChanSend (''[info] removed 1 trashed (empty) translations'' @ [CHR 0x0A]
                     @ ''en: 1 removes''),
         GoChanSend (''[info] removed 1 non-printable translations'' @ [CHR 0x0A]
                     @ ''en: 1 removes'')])"
    by (rule example_cleanup[OF o o])
  show ?thesis
    using cleanup_twice[OF ex, of rev rev] ex by simp
qed

section \<open>Sends on the notification channel\<close>

lemma summary_spawns: "e \<in> set (summary what n ls) \<Longrightarrow> \<exists>s. e = GoChanSend s"
  by (auto simp: summary_def split: if_splits)

lemma cleanup_spawns: "e \<in> set (snd (cleanup L ord1 ord2 d)) \<Longrightarrow> \<exists>s. e = GoChanSend s"
proof -
  assume e: "e \<in> set (snd (cleanup L ord1 ord2 d))"
  obtain d1 where p1: "removeEmptyTranslations ord1 d =
          (d1, summary '' trashed (empty) translations'' (badTotal (\<lambda>v. v = []) d)
                 (statLines ord1 (perLanguage (\<lambda>v. v = []) d)))"
    using removeEmptyTranslations_result[of ord1 d] by blast
  obtain d2 where p2: "removeNonPrintableTranslations L ord2 d1 =
          (d2, summary '' non-printable translations'' (badTotal (nonPrintable L) d1)
                 (statLines ord2 (perLanguage (nonPrintable L) d1)))"
    using removeNonPrintableTranslations_result[of L ord2 d1] by blast
  from e p1 p2 show ?thesis
    by (auto simp: cleanup_def dest: summary_spawns)
qed

lemma mainDiscovery_effects:
  "e \<in> set (snd (mainDiscovery cfg run engines)) \<Longrightarrow> (\<exists>s. e = GoChanSend s) \<or> (\<exists>argv. e = Exec argv)"
  by (auto simp: mainDiscovery_def getEngines_def Let_def infoNotification_def
        errorNotification_def split: option.splits)

text \<open>
  The producers in the background never send from their own goroutine: every effect of
  the janitor is a send handed to a new goroutine, and discovery starts its process
  and hands its send to a new goroutine.
\<close>

lemma background_producers_spawn:
  "(e \<in> set (snd (cleanup L ord1 ord2 d)) \<longrightarrow> (\<exists>s. e = GoChanSend s))
   \<and> (e \<in> set (snd (mainDiscovery cfg run engines)) \<longrightarrow>
        (\<exists>s. e = GoChanSend s) \<or> (\<exists>argv. e = Exec argv))
   \<and> (e \<in> set mainStarted \<longrightarrow> (\<exists>s. e = GoChanSend s))"
  using cleanup_spawns[of e L ord1 ord2 d] mainDiscovery_effects[of e cfg run engines]
  by (auto simp: mainStarted_def)

text \<open>
  C2: the program does not do what the claim says. On a request that misses the cache
  while every engine fails, the handler's last effect is a send that
  \<^verbatim>\<open>onTranslationError\<close> makes from the handler's own goroutine. The channel has no
  buffer, so this send does not complete while the notification loop is inside
  \<^verbatim>\<open>tgbotapi.NewBotAPI\<close> or in the branch of a tick; it completes when the loop is
  waiting in its \<^verbatim>\<open>select\<close>. The sends of the janitor on the database of the example
  are handed to new goroutines and are done whatever the loop is doing.
\<close>

theorem handler_error_send_waits:
  "handler asciiLib transCfg allFail [''google''] (HGet exampleDb) ''Cat'' ''de'' =
     ((200, ''cat''),
      [RedisHGet ''de'' ''cat'',
       Exec [''/usr/bin/trans'', ''-e'', ''google'', ''-b'', '':de'', ''cat''],
       ChanSend ''[error] cat (to de) failed to translate in all engines''])
   \<and> \<not> proceeds Flushing (ChanSend ''[error] cat (to de) failed to translate in all engines'')
   \<and> \<not> proceeds Initializing (ChanSend ''[error] cat (to de) failed to translate in all engines'')
   \<and> proceeds Selecting (ChanSend ''[error] cat (to de) failed to translate in all engines'')
   \<and> snd (cleanup asciiLib rev rev exampleDb) =
       [GoChanSend (''[info] removed 1 trashed (empty) translations'' @ [CHR 0x0A]
                    @ ''en: 1 removes''),
        GoChanSend (''[info] removed 1 non-printable translations'' @ [CHR 0x0A]
                    @ ''en: 1 removes'')]
   \<and> proceeds Flushing (GoChanSend (''[info] removed 1 trashed (empty) translations''
                                    @ [CHR 0x0A] @ ''en: 1 removes''))
   \<and> proceeds Flushing (GoChanSend (''[info] removed 1 non-printable translations''
                                    @ [CHR 0x0A] @ ''en: 1 removes''))"
proof -
  have o: "\<forall>st. mset (rev st) = mset (st :: stats)" by simp
  have h: "handler asciiLib transCfg allFail [''google''] (HGet exampleDb) ''Cat'' ''de'' =
     ((200, ''cat''),
      [RedisHGet ''de'' ''cat'',
       Exec [''/usr/bin/trans'', ''-e'', ''google'', ''-b'', '':de'', ''cat''],
       ChanSend ''[error] cat (to de) failed to translate in all engines''])"
    by (simp add: handler_def Let_def StatusOK_def asciiLib_sel asciiTrim_def asciiSpace_def
          asciiLower_def HGet_def exampleDb_def fetch_def invokeTrans_def allFail_def
          onTranslationError_def transArgv_def transCfg_def)
  have w: "\<not> proceeds Flushing (ChanSend ''[error] cat (to de) failed to translate in all engines'')"
    "\<not> proceeds Initializing (ChanSend ''[error] cat (to de) failed to translate in all engines'')"
    "proceeds Selecting (ChanSend ''[error] cat (to de) failed to translate in all engines'')"
    by (simp_all add: sendCompletes_def notifyChannelCap_def receiving_def)
  have j: "snd (cleanup asciiLib rev rev exampleDb) =
       [GoChanSend (''[info] removed 1 trashed (empty) translations'' @ [CHR 0x0A]
                    @ ''en: 1 removes''),
        GoChanSend (''[info] removed 1 non-printable translations'' @ [CHR 0x0A]
                    @ ''en: 1 removes'')]"
    by (simp add: example_cleanup[OF o o])
  show ?thesis
    using h w j by simp
qed

end
